theory Spec2Isabelle
  imports Main
begin

section \<open>Data model\<close>

text \<open>
  The development embeds the class \<open>UWebSocketManager\<close>: its connection table
  (\<open>sockets\<close>), its room registry (\<open>rooms\<close>), its table of custom handlers, the
  handlers given to \<open>app.ws\<close> (upgrade, open, message, close), the event dispatcher
  \<open>emitEvent\<close> and the Redis relay.

  Identifiers are \<open>string | number\<close> in the source.
\<close>

datatype ident = IdStr string | IdNum int

text \<open>The identity stored with a connection: \<open>WebSocketUserData.user\<close>.\<close>

record user =
  u_id :: ident
  u_email :: "string option"
  u_collection :: string
  u_role :: "string option"

text \<open>
  \<open>WebSocketUserData\<close>, the object handed to \<open>res.upgrade\<close>. The upgrade handler is
  the only place that builds one, and it always sets \<open>id\<close> and \<open>rooms\<close>; the code
  reads both with a non-null assertion. A JavaScript \<open>Set\<close> is a list without
  duplicates in insertion order.
\<close>

record user_data =
  ud_user :: "user option"
  ud_id :: string
  ud_rooms :: "string list"

datatype event_type = Create | Update | Delete

record event_user =
  eu_id :: ident
  eu_email :: "string option"
  eu_collection :: "string option"

text \<open>
  A value of type \<open>any\<close>: either \<open>JSON.stringify\<close> turns it into text, or it throws
  on it (a cyclic object, a \<open>BigInt\<close>).
\<close>

datatype json_value = Json string | NotJson

text \<open>\<open>RealtimeEventPayload\<close>; the document snapshot is such a value.\<close>

record realtime_event =
  ev_type :: event_type
  ev_collection :: string
  ev_id :: ident
  ev_doc :: "json_value option"
  ev_user :: "event_user option"
  ev_timestamp :: string

text \<open>
  The values of type \<open>any\<close> that travel in frames and relay envelopes: an event, the
  object \<open>{ userId: ... }\<close> of a leave notification, or anything else.
\<close>

datatype data = DEvent realtime_event | DUserId ident | DOther json_value

text \<open>\<open>JSON.stringify\<close> returns for the value; the other fields of an event always serialise.\<close>

definition serialises :: "data \<Rightarrow> bool" where
  "serialises d =
     (case d of
        DEvent e \<Rightarrow> ev_doc e \<noteq> Some NotJson
      | DUserId i \<Rightarrow> True
      | DOther v \<Rightarrow> v \<noteq> NotJson)"

text \<open>A transport socket is an opaque handle; its user data lives with the transport.\<close>

type_synonym ws = nat

text \<open>The frame \<open>{type: eventName, data}\<close> given to \<open>ws.send\<close>, with its receiver.\<close>

type_synonym frame = "ws \<times> string \<times> data"

text \<open>The object serialised by \<open>publishToRedis\<close>: the data sits under two keys.\<close>

record envelope =
  env_type :: string
  env_room :: string
  env_eventName :: string
  env_event :: data
  env_message :: data

text \<open>
  The state of one instance. \<open>sockets\<close> is a \<open>Map\<close> whose keys the code enumerates,
  so it is an association list in insertion order; \<open>rooms\<close> and \<open>customHandlers\<close>
  are only looked up, set and deleted, so they are maps. \<open>pubClient\<close> says whether the
  publishing Redis client exists. \<open>udata\<close> is what \<open>ws.getUserData()\<close> returns;
  \<open>sent\<close> collects the frames passed to \<open>ws.send\<close> and \<open>published\<close> the envelopes
  passed to \<open>pubClient.publish\<close>, both in order (a send on a socket that has closed in
  the meantime is such a call too: it throws, and \<open>sendToSocket\<close> catches it). A custom
  handler is a value of type \<open>'h\<close>; how it runs is a parameter of the message handler.
  Calls of \<open>payload.logger\<close> are left out: they do not touch this state.
\<close>

record 'h manager =
  sockets :: "(string \<times> ws) list"
  rooms :: "string \<rightharpoonup> string list"
  customHandlers :: "string \<rightharpoonup> 'h"
  pubClient :: bool
  udata :: "ws \<Rightarrow> user_data"
  sent :: "frame list"
  published :: "envelope list"

text \<open>
  A call either returns or throws; the state reached so far is kept in both cases. Two
  exceptions are told apart: \<open>TypeError\<close> is the one of reading the user data of a socket
  that is \<open>undefined\<close>, or the one a sample handler throws; \<open>PredicateError\<close> stands for
  whatever the call of an authorization predicate throws or its promise rejects with.
\<close>

datatype js_error = TypeError | PredicateError

datatype 's completion = Normal 's | Throws js_error 's

section \<open>JavaScript containers\<close>

definition Set_add :: "'a \<Rightarrow> 'a list \<Rightarrow> 'a list" where
  "Set_add x xs = (if x \<in> set xs then xs else xs @ [x])"

definition Set_delete :: "'a \<Rightarrow> 'a list \<Rightarrow> 'a list" where
  "Set_delete x xs = removeAll x xs"

fun Map_set :: "'k \<Rightarrow> 'v \<Rightarrow> ('k \<times> 'v) list \<Rightarrow> ('k \<times> 'v) list" where
  "Map_set k v [] = [(k, v)]"
| "Map_set k v (p # ps) = (if fst p = k then (k, v) # ps else p # Map_set k v ps)"

definition Map_delete :: "'k \<Rightarrow> ('k \<times> 'v) list \<Rightarrow> ('k \<times> 'v) list" where
  "Map_delete k ps = filter (\<lambda>p. fst p \<noteq> k) ps"

definition Map_get :: "('k \<times> 'v) list \<Rightarrow> 'k \<Rightarrow> 'v option" where
  "Map_get ps k = map_of ps k"

section \<open>Room registry\<close>

text \<open>
  \<open>joinRoom\<close>: create the room if it is absent, then add the id to the set stored
  under the name. The lookup after the creation cannot miss (the code asserts it with
  \<open>!\<close>); \<open>joinRoom_rooms\<close> below shows that the last branch is never taken.
\<close>

definition joinRoom :: "string \<Rightarrow> string \<Rightarrow> 'h manager \<Rightarrow> 'h manager" where
  "joinRoom socketId roomName m =
     (let rooms1 = (if rooms m roomName = None then (rooms m)(roomName \<mapsto> []) else rooms m)
      in case rooms1 roomName of
           Some room \<Rightarrow> m\<lparr>rooms := rooms1(roomName \<mapsto> Set_add socketId room)\<rparr>
         | None \<Rightarrow> m)"

definition leaveRoom :: "string \<Rightarrow> string \<Rightarrow> 'h manager \<Rightarrow> 'h manager" where
  "leaveRoom socketId roomName m =
     (case rooms m roomName of
        Some room \<Rightarrow>
          (let room' = Set_delete socketId room
           in if length room' = 0 then m\<lparr>rooms := (rooms m)(roomName := None)\<rparr>
              else m\<lparr>rooms := (rooms m)(roomName \<mapsto> room')\<rparr>)
      | None \<Rightarrow> m)"

definition getSocketsInRoom :: "'h manager \<Rightarrow> string \<Rightarrow> string list" where
  "getSocketsInRoom m roomName = (case rooms m roomName of Some room \<Rightarrow> room | None \<Rightarrow> [])"

text \<open>A manager fresh from the constructor, given whether Redis is connected.\<close>

definition new_manager :: "bool \<Rightarrow> (ws \<Rightarrow> user_data) \<Rightarrow> 'h manager" where
  "new_manager redis ud =
     \<lparr>sockets = [], rooms = Map.empty, customHandlers = Map.empty, pubClient = redis,
      udata = ud, sent = [], published = []\<rparr>"

text \<open>Sequences of calls of the two registry operations.\<close>

datatype room_op = Join string string | Leave string string

fun apply_room_op :: "room_op \<Rightarrow> 'h manager \<Rightarrow> 'h manager" where
  "apply_room_op (Join c r) m = joinRoom c r m"
| "apply_room_op (Leave c r) m = leaveRoom c r m"

definition run_room_ops :: "room_op list \<Rightarrow> 'h manager \<Rightarrow> 'h manager" where
  "run_room_ops ops m = fold apply_room_op ops m"

definition no_empty_room :: "'h manager \<Rightarrow> bool" where
  "no_empty_room m = (\<forall>r room. rooms m r = Some room \<longrightarrow> room \<noteq> [])"

section \<open>Sending, relay and broadcast\<close>

text \<open>
  \<open>sendToSocket\<close> serialises the frame and hands it to \<open>ws.send\<close>, all inside
  \<open>try\<close>: when \<open>JSON.stringify\<close> throws, nothing reaches \<open>ws.send\<close>; the exception,
  like one of the transport, is caught and logged, so the call always returns.
\<close>

definition sendToSocket :: "ws \<Rightarrow> string \<Rightarrow> data \<Rightarrow> 'h manager \<Rightarrow> 'h manager" where
  "sendToSocket socket eventName d m =
     (if serialises d then m\<lparr>sent := sent m @ [(socket, eventName, d)]\<rparr> else m)"

text \<open>
  \<open>publishToRedis\<close> returns at once without a publishing client; with one, it
  serialises the envelope and publishes it inside \<open>try\<close>.
\<close>

definition publishToRedis ::
    "string \<Rightarrow> string \<Rightarrow> string \<Rightarrow> data \<Rightarrow> 'h manager \<Rightarrow> 'h manager" where
  "publishToRedis kind room eventName d m =
     (if \<not> pubClient m then m
      else if serialises d
      then m\<lparr>published := published m @
             [\<lparr>env_type = kind, env_room = room, env_eventName = eventName,
               env_event = d, env_message = d\<rparr>]\<rparr>
      else m)"

text \<open>
  The test \<open>excludeSocketId && socketId === excludeSocketId\<close>: an absent or empty
  \<open>excludeSocketId\<close> is falsy and excludes nobody.
\<close>

definition is_excluded :: "string option \<Rightarrow> string \<Rightarrow> bool" where
  "is_excluded excludeSocketId socketId =
     (case excludeSocketId of None \<Rightarrow> False | Some e \<Rightarrow> e \<noteq> [] \<and> socketId = e)"

definition broadcast_step ::
    "data \<Rightarrow> string \<Rightarrow> string option \<Rightarrow> string \<Rightarrow> 'h manager \<Rightarrow> 'h manager" where
  "broadcast_step d eventName excludeSocketId socketId m =
     (if is_excluded excludeSocketId socketId then m
      else case Map_get (sockets m) socketId of
             Some socket \<Rightarrow> sendToSocket socket eventName d m
           | None \<Rightarrow> m)"

definition broadcastToRoom ::
    "string \<Rightarrow> data \<Rightarrow> string \<Rightarrow> string option \<Rightarrow> 'h manager \<Rightarrow> 'h manager" where
  "broadcastToRoom roomName d eventName excludeSocketId m =
     (let socketIds = getSocketsInRoom m roomName;
          m1 = fold (broadcast_step d eventName excludeSocketId) socketIds m
      in publishToRedis ''room-broadcast'' roomName eventName d m1)"

text \<open>
  A message of the relay channel after \<open>JSON.parse\<close>: either the parse (or a field
  access) throws, which the handler catches and logs, or it is an envelope.
\<close>

datatype relay_message = Malformed | Parsed envelope

definition handleRedisMessage :: "string \<Rightarrow> relay_message \<Rightarrow> 'h manager \<Rightarrow> 'h manager" where
  "handleRedisMessage channel message m =
     (case message of
        Malformed \<Rightarrow> m
      | Parsed d \<Rightarrow>
          if env_type d = ''event''
          then broadcastToRoom (env_room d) (env_event d) (env_eventName d) None m
          else if env_type d = ''room-broadcast''
          then broadcastToRoom (env_room d) (env_message d) (env_eventName d) None m
          else m)"

section \<open>Event dispatcher\<close>

text \<open>
  An authorization predicate returns a promise. Called on a user and an event, its promise
  is fulfilled with a truth value, or its promise rejects, or the call itself throws.
\<close>

datatype verdict = Fulfils bool | RejectsLater | RaisesNow

type_synonym predicate = "user \<Rightarrow> realtime_event \<Rightarrow> verdict"

text \<open>
  \<open>authorize\<close> is an ordinary object and the code reads \<open>authorize[event.collection]\<close>:
  a name that is no key of the object itself is looked up in \<open>Object.prototype\<close>. What
  is found there is truthy, so the code takes it for the predicate and calls it, with no
  receiver, on the user object and the event: \<open>constructor\<close> (that is \<open>Object\<close>) returns
  the user object and \<open>toString\<close> returns text, both truthy; \<open>__proto__\<close> is no function
  and the other members need a receiver, so these calls throw.
\<close>

definition Object_prototype :: "string \<Rightarrow> predicate option" where
  "Object_prototype key =
     (if key = ''constructor'' \<or> key = ''toString'' then Some (\<lambda>u e. Fulfils True)
      else if key \<in> {''hasOwnProperty'', ''isPrototypeOf'', ''propertyIsEnumerable'',
                      ''toLocaleString'', ''valueOf'', ''__proto__'', ''__defineGetter__'',
                      ''__defineSetter__'', ''__lookupGetter__'', ''__lookupSetter__''}
      then Some (\<lambda>u e. RaisesNow)
      else None)"

definition property_get :: "(string \<rightharpoonup> predicate) \<Rightarrow> string \<Rightarrow> predicate option" where
  "property_get obj key = (case obj key of Some h \<Rightarrow> Some h | None \<Rightarrow> Object_prototype key)"

text \<open>
  The options read by the manager. \<open>authorize\<close> is given by its own keys. The transform
  gets the event object itself: it returns an event and may have written to the object it
  got; the result here is the event returned and the argument as the call leaves it. The
  filter and the predicates are taken not to write to the event.
\<close>

record 'h options =
  authorize :: "(string \<rightharpoonup> predicate) option"
  shouldEmit :: "(realtime_event \<Rightarrow> bool) option"
  transformEvent :: "(realtime_event \<Rightarrow> realtime_event \<times> realtime_event) option"
  onSocketConnection :: "(ws \<Rightarrow> 'h manager \<Rightarrow> 'h manager) option"

text \<open>
  While \<open>emitEvent\<close> waits for a promise, other tasks of the event loop run: sockets open
  and close, messages arrive. \<open>others\<close> lists what they do to the state, one entry for
  each suspension in turn; when the list is used up, nothing else runs.
\<close>

type_synonym 'h others = "('h manager \<Rightarrow> 'h manager) list"

definition meanwhile :: "'h others \<Rightarrow> 'h manager \<Rightarrow> 'h manager" where
  "meanwhile others m = (case others of [] \<Rightarrow> m | f # rest \<Rightarrow> f m)"

text \<open>
  The loop \<open>for (const socketId of socketIds)\<close> of the authorized path, over the member
  list as it was when the loop began. The socket is looked up and its user data read with
  no check: for an id that is not in the connection table (any more) the lookup gives
  \<open>undefined\<close> and \<open>getUserData\<close> throws a \<open>TypeError\<close>. The predicate is called and
  awaited in each round; its exception or rejection ends the loop too. Nothing in
  \<open>emitEvent\<close> catches either. After the suspension the frame goes to the socket that was
  looked up before it.
\<close>

fun authorized_loop ::
    "predicate \<Rightarrow> realtime_event \<Rightarrow> 'h others \<Rightarrow> string list \<Rightarrow> 'h manager
       \<Rightarrow> 'h manager completion" where
  "authorized_loop collectionHandler finalEvent others [] m = Normal m"
| "authorized_loop collectionHandler finalEvent others (socketId # socketIds) m =
     (case Map_get (sockets m) socketId of
        None \<Rightarrow> Throws TypeError m
      | Some socket \<Rightarrow>
          (case ud_user (udata m socket) of
             None \<Rightarrow> authorized_loop collectionHandler finalEvent others socketIds m
           | Some u \<Rightarrow>
               (case collectionHandler u finalEvent of
                  RaisesNow \<Rightarrow> Throws PredicateError m
                | RejectsLater \<Rightarrow> Throws PredicateError (meanwhile others m)
                | Fulfils isAuthorized \<Rightarrow>
                    if isAuthorized
                    then authorized_loop collectionHandler finalEvent (tl others) socketIds
                           (sendToSocket socket ''payload:event'' (DEvent finalEvent)
                              (meanwhile others m))
                    else authorized_loop collectionHandler finalEvent (tl others) socketIds
                           (meanwhile others m))))"

text \<open>
  The end of \<open>emitEvent\<close>: the global feed to every key of the connection table, then the
  relay.
\<close>

definition all_feed_step :: "realtime_event \<Rightarrow> string \<Rightarrow> 'h manager \<Rightarrow> 'h manager" where
  "all_feed_step finalEvent socketId m =
     (case Map_get (sockets m) socketId of
        Some socket \<Rightarrow> sendToSocket socket ''payload:event:all'' (DEvent finalEvent) m
      | None \<Rightarrow> m)"

definition feed_and_relay :: "realtime_event \<Rightarrow> string \<Rightarrow> 'h manager \<Rightarrow> 'h manager" where
  "feed_and_relay finalEvent room m =
     (let allSocketIds = map fst (sockets m);
          m1 = fold (all_feed_step finalEvent) allSocketIds m
      in publishToRedis ''event'' room ''payload:event'' (DEvent finalEvent) m1)"

text \<open>
  \<open>emitEvent\<close>: the filter, the transform, the room-scoped delivery (through the
  predicate found for the collection, to nobody, or to the whole room), then the global
  feed and the relay. The room name and the predicate are taken from \<open>event.collection\<close>,
  read after the transform ran on \<open>event\<close>. An exception of the room-scoped delivery
  ends the call.
\<close>

definition emitEvent ::
    "'h options \<Rightarrow> 'h others \<Rightarrow> realtime_event \<Rightarrow> 'h manager \<Rightarrow> 'h manager completion" where
  "emitEvent opts others event0 m =
     (if (case shouldEmit opts of Some f \<Rightarrow> \<not> f event0 | None \<Rightarrow> False) then Normal m
      else
        let (finalEvent, event) =
              (case transformEvent opts of Some t \<Rightarrow> t event0 | None \<Rightarrow> (event0, event0));
            room = ''collection:'' @ ev_collection event;
            scoped =
              (case authorize opts of
                 Some auth \<Rightarrow>
                   (case property_get auth (ev_collection event) of
                      Some collectionHandler \<Rightarrow>
                        authorized_loop collectionHandler finalEvent others
                          (getSocketsInRoom m room) m
                    | None \<Rightarrow> Normal m)
               | None \<Rightarrow>
                   Normal (broadcastToRoom room (DEvent finalEvent) ''payload:event'' None m))
        in case scoped of
             Throws e m1 \<Rightarrow> Throws e m1
           | Normal m1 \<Rightarrow> Normal (feed_and_relay finalEvent room m1))"

section \<open>Messages and custom handlers\<close>

text \<open>
  The \<open>data\<close> field of an inbound message: an array, or a single value. The built-in
  handlers only interpolate a value into the room name, so a value that is not an array
  is represented by its string conversion, and an array by those of its elements.
\<close>

datatype msg_data = Single string | Array "string list"

record message =
  msg_type :: string
  msg_data :: msg_data

text \<open>
  \<open>on\<close> registers a handler. The two built-in handlers run through the collections of
  the message; each round changes the registry and the socket's own room set.
\<close>

definition on :: "string \<Rightarrow> 'h \<Rightarrow> 'h manager \<Rightarrow> 'h manager" where
  "on eventName handler m = m\<lparr>customHandlers := (customHandlers m)(eventName \<mapsto> handler)\<rparr>"

definition collections_of :: "msg_data \<Rightarrow> string list" where
  "collections_of collection = (case collection of Array cs \<Rightarrow> cs | Single c \<Rightarrow> [c])"

definition rooms_add :: "ws \<Rightarrow> string \<Rightarrow> 'h manager \<Rightarrow> 'h manager" where
  "rooms_add w roomName m =
     m\<lparr>udata := (udata m)(w := (udata m w)\<lparr>ud_rooms := Set_add roomName (ud_rooms (udata m w))\<rparr>)\<rparr>"

definition rooms_delete :: "ws \<Rightarrow> string \<Rightarrow> 'h manager \<Rightarrow> 'h manager" where
  "rooms_delete w roomName m =
     m\<lparr>udata := (udata m)(w := (udata m w)\<lparr>ud_rooms := Set_delete roomName (ud_rooms (udata m w))\<rparr>)\<rparr>"

definition join_step :: "ws \<Rightarrow> string \<Rightarrow> 'h manager \<Rightarrow> 'h manager" where
  "join_step w coll m =
     (let roomName = ''collection:'' @ coll
      in rooms_add w roomName (joinRoom (ud_id (udata m w)) roomName m))"

definition handleJoinCollection :: "ws \<Rightarrow> msg_data \<Rightarrow> 'h manager \<Rightarrow> 'h manager" where
  "handleJoinCollection w collection m = fold (join_step w) (collections_of collection) m"

definition unsubscribe_step :: "ws \<Rightarrow> string \<Rightarrow> 'h manager \<Rightarrow> 'h manager" where
  "unsubscribe_step w coll m =
     (let roomName = ''collection:'' @ coll
      in rooms_delete w roomName (leaveRoom (ud_id (udata m w)) roomName m))"

definition handleUnsubscribe :: "ws \<Rightarrow> msg_data \<Rightarrow> 'h manager \<Rightarrow> 'h manager" where
  "handleUnsubscribe w collection m = fold (unsubscribe_step w) (collections_of collection) m"

text \<open>
  \<open>invoke\<close> says what calling a custom handler does to the state and whether the call
  throws; \<open>handleMessage\<close> catches and logs the exception.
\<close>

type_synonym 'h invoke = "'h \<Rightarrow> ws \<Rightarrow> msg_data \<Rightarrow> 'h manager \<Rightarrow> 'h manager completion"

definition state_of :: "'s completion \<Rightarrow> 's" where
  "state_of c = (case c of Normal s \<Rightarrow> s | Throws e s \<Rightarrow> s)"

definition handleMessage :: "'h invoke \<Rightarrow> ws \<Rightarrow> message \<Rightarrow> 'h manager \<Rightarrow> 'h manager" where
  "handleMessage invoke w msg m =
     (if msg_type msg = ''subscribe'' \<or> msg_type msg = ''join-collection''
      then handleJoinCollection w (msg_data msg) m
      else if msg_type msg = ''unsubscribe''
      then handleUnsubscribe w (msg_data msg) m
      else case customHandlers m (msg_type msg) of
             Some customHandler \<Rightarrow>
               (case invoke customHandler w (msg_data msg) m of
                  Normal m' \<Rightarrow> m'
                | Throws e m' \<Rightarrow> m')
           | None \<Rightarrow> m)"

section \<open>The handlers of the transport\<close>

text \<open>The open handler enters the socket under its id and runs the callback, if any.\<close>

definition ws_open :: "'h options \<Rightarrow> ws \<Rightarrow> 'h manager \<Rightarrow> 'h manager" where
  "ws_open opts w m =
     (let socketId = ud_id (udata m w);
          m1 = m\<lparr>sockets := Map_set socketId w (sockets m)\<rparr>
      in case onSocketConnection opts of Some callback \<Rightarrow> callback w m1 | None \<Rightarrow> m1)"

text \<open>The message handler parses the frame; a frame that does not parse is logged.\<close>

definition ws_message :: "'h invoke \<Rightarrow> ws \<Rightarrow> message option \<Rightarrow> 'h manager \<Rightarrow> 'h manager" where
  "ws_message invoke w parsed m =
     (case parsed of Some msg \<Rightarrow> handleMessage invoke w msg m | None \<Rightarrow> m)"

text \<open>
  The close handler: for every room of the closing connection's own room set, a leave
  notification if the name starts with \<open>project:\<close> or \<open>actor:\<close> and the connection
  has an identity, then \<open>leaveRoom\<close>; in the end the connection leaves the table.
\<close>

definition startsWith :: "string \<Rightarrow> string \<Rightarrow> bool" where
  "startsWith s p = (take (length p) s = p)"

definition close_step :: "user_data \<Rightarrow> string \<Rightarrow> 'h manager \<Rightarrow> 'h manager" where
  "close_step userData room m =
     (let socketId = ud_id userData;
          m1 = (case ud_user userData of
                  None \<Rightarrow> m
                | Some u \<Rightarrow>
                    if startsWith room ''project:''
                    then broadcastToRoom room (DUserId (u_id u)) ''project:user-left''
                           (Some socketId) m
                    else if startsWith room ''actor:''
                    then broadcastToRoom room (DUserId (u_id u)) ''actor:user-left''
                           (Some socketId) m
                    else m)
      in leaveRoom socketId room m1)"

definition ws_close :: "ws \<Rightarrow> 'h manager \<Rightarrow> 'h manager" where
  "ws_close w m =
     (let userData = udata m w;
          socketId = ud_id userData;
          m1 = fold (close_step userData) (ud_rooms userData) m
      in m1\<lparr>sockets := Map_delete socketId (sockets m1)\<rparr>)"

section \<open>The handshake\<close>

text \<open>
  The upgrade request: \<open>req_token\<close> is what \<open>extractTokenFromQuery\<close> returns for the
  query string; the three headers are copied before the first suspension.
\<close>

record upgrade_request =
  req_token :: "string option"
  req_key :: string
  req_protocol :: string
  req_extensions :: string

text \<open>The token as \<open>jwt.verify\<close> decodes it, and the document \<open>payload.findByID\<close> finds.\<close>

record decoded_token =
  dec_collection :: "string option"
  dec_id :: ident

record user_doc =
  doc_id :: ident
  doc_email :: "string option"
  doc_role :: "string option"

text \<open>
  What the handler writes to the response: the status \<open>401 Unauthorized\<close> with a body, or
  the upgrade with the user data of the new socket and the three copied headers.
\<close>

datatype res_write = Unauthorized string | UpgradeTo user_data string string string

text \<open>
  The task suspended at \<open>await payload.findByID\<close>: the abort flag, which the observer
  registered with \<open>res.onAborted\<close> sets, and what the task carries across the suspension.
\<close>

record pending =
  p_aborted :: bool
  p_decoded :: decoded_token
  p_key :: string
  p_protocol :: string
  p_extensions :: string

text \<open>How the lookup settles: the promise rejects, or resolves to a document or to nothing.\<close>

datatype lookup_result = Rejects | Resolves "user_doc option"

text \<open>\<open>decoded.collection || "users"\<close>: an absent or empty collection gives \<open>users\<close>.\<close>

definition collection_or_users :: "decoded_token \<Rightarrow> string" where
  "collection_or_users decoded =
     (case dec_collection decoded of
        None \<Rightarrow> ''users''
      | Some c \<Rightarrow> if c = [] then ''users'' else c)"

text \<open>The \<open>catch\<close> block of the task.\<close>

definition catch_block :: "bool \<Rightarrow> res_write list" where
  "catch_block aborted =
     (if aborted then [] else [Unauthorized ''Invalid authentication token''])"

text \<open>
  The upgrade handler up to the suspension. \<open>verify\<close> stands for \<open>jwt.verify\<close> with the
  secret: \<open>None\<close> when it throws. The result is what was written to the response and the
  suspended task, if the handler got that far.
\<close>

definition upgrade ::
    "(string \<Rightarrow> decoded_token option) \<Rightarrow> upgrade_request \<Rightarrow> res_write list \<times> pending option" where
  "upgrade verify req =
     (case req_token req of
        None \<Rightarrow> ([Unauthorized ''Authentication token required''], None)
      | Some token \<Rightarrow>
          if token = [] then ([Unauthorized ''Authentication token required''], None)
          else
            let aborted = False;
                secWebSocketKey = req_key req;
                secWebSocketProtocol = req_protocol req;
                secWebSocketExtensions = req_extensions req
            in case verify token of
                 None \<Rightarrow> (catch_block aborted, None)
               | Some decoded \<Rightarrow>
                   ([], Some \<lparr>p_aborted = aborted, p_decoded = decoded,
                              p_key = secWebSocketKey, p_protocol = secWebSocketProtocol,
                              p_extensions = secWebSocketExtensions\<rparr>))"

text \<open>The observer registered with \<open>res.onAborted\<close>.\<close>

definition onAborted :: "pending \<Rightarrow> pending" where
  "onAborted p = p\<lparr>p_aborted := True\<rparr>"

text \<open>
  The task resumed when the lookup settles; \<open>uuid\<close> is the value of \<open>randomUUID()\<close>. The
  result is what the resumed task writes to the response.
\<close>

definition upgrade_resume :: "pending \<Rightarrow> lookup_result \<Rightarrow> string \<Rightarrow> res_write list" where
  "upgrade_resume p result uuid =
     (case result of
        Rejects \<Rightarrow> catch_block (p_aborted p)
      | Resolves userDoc \<Rightarrow>
          if p_aborted p then []
          else case userDoc of
                 None \<Rightarrow> [Unauthorized ''User not found'']
               | Some doc \<Rightarrow>
                   let userData = \<lparr>u_id = doc_id doc, u_email = doc_email doc,
                                   u_collection = collection_or_users (p_decoded p),
                                   u_role = doc_role doc\<rparr>
                   in if p_aborted p then []
                      else [UpgradeTo \<lparr>ud_user = Some userData, ud_id = uuid, ud_rooms = []\<rparr>
                              (p_key p) (p_protocol p) (p_extensions p)])"

text \<open>
  The transport after the handshake task has finished: only an upgrade written to the
  response creates a socket, with the user data given, and the open handler runs for it.
\<close>

definition transport_open :: "'h options \<Rightarrow> ws \<Rightarrow> res_write list \<Rightarrow> 'h manager \<Rightarrow> 'h manager" where
  "transport_open opts w writes m =
     (case writes of
        [UpgradeTo userData k p e] \<Rightarrow> ws_open opts w (m\<lparr>udata := (udata m)(w := userData)\<rparr>)
      | _ \<Rightarrow> m)"

section \<open>Reachable states\<close>

text \<open>
  Membership symmetry: a connection of the table lists a room in its own room set exactly
  when the member set of the room holds its id.
\<close>

definition membership_symmetric :: "'h manager \<Rightarrow> bool" where
  "membership_symmetric m =
     (\<forall>(socketId, w) \<in> set (sockets m). \<forall>r.
        r \<in> set (ud_rooms (udata m w)) \<longleftrightarrow> ud_id (udata m w) \<in> set (getSocketsInRoom m r))"

text \<open>
  The invariant behind it: the table is keyed by the ids of its sockets, its keys are
  distinct, membership is symmetric, and the rooms hold ids of the table only.
\<close>

definition registry_inv :: "'h manager \<Rightarrow> bool" where
  "registry_inv m =
     ((\<forall>(socketId, w) \<in> set (sockets m). ud_id (udata m w) = socketId) \<and>
      distinct (map fst (sockets m)) \<and>
      membership_symmetric m \<and>
      (\<forall>r. set (getSocketsInRoom m r) \<subseteq> fst ` set (sockets m)))"

text \<open>
  The states an instance reaches from a new manager: a handshake task finishes for a new
  socket with a fresh id (and the socket is opened if the task wrote an upgrade), a
  message arrives on an open socket, an open socket closes, a relay message arrives, the
  host broadcasts to a room or emits an event. While \<open>emitEvent\<close> is suspended, tasks of
  the set \<open>tasks\<close> run.
\<close>

inductive reachable ::
    "'h options \<Rightarrow> 'h invoke \<Rightarrow> ('h manager \<Rightarrow> 'h manager) set \<Rightarrow> 'h manager \<Rightarrow> bool"
  for opts :: "'h options" and invoke :: "'h invoke"
    and tasks :: "('h manager \<Rightarrow> 'h manager) set" where
  start: "reachable opts invoke tasks (new_manager redis ud)"
| opened: "reachable opts invoke tasks m \<Longrightarrow> w \<notin> snd ` set (sockets m) \<Longrightarrow>
     uuid \<notin> fst ` set (sockets m) \<Longrightarrow>
     reachable opts invoke tasks (transport_open opts w (upgrade_resume p result uuid) m)"
| message: "reachable opts invoke tasks m \<Longrightarrow> w \<in> snd ` set (sockets m) \<Longrightarrow>
     reachable opts invoke tasks (ws_message invoke w parsed m)"
| closed: "reachable opts invoke tasks m \<Longrightarrow> w \<in> snd ` set (sockets m) \<Longrightarrow>
     reachable opts invoke tasks (ws_close w m)"
| relayed: "reachable opts invoke tasks m \<Longrightarrow>
     reachable opts invoke tasks (handleRedisMessage channel relay m)"
| broadcast: "reachable opts invoke tasks m \<Longrightarrow>
     reachable opts invoke tasks (broadcastToRoom roomName d eventName excludeSocketId m)"
| emitted: "reachable opts invoke tasks m \<Longrightarrow> set others \<subseteq> tasks \<Longrightarrow>
     reachable opts invoke tasks (state_of (emitEvent opts others event m))"

text \<open>
  The post-connect callback and the custom handlers are code of the host, run for an open
  socket. The statement about reachable states is for hosts whose code keeps the
  invariant, as code does that pairs every \<open>joinRoom\<close> and \<open>leaveRoom\<close> for a socket with
  the same change of the socket's own room set; the same is asked of the tasks that run
  while \<open>emitEvent\<close> is suspended.
\<close>

definition host_keeps_membership ::
    "'h options \<Rightarrow> 'h invoke \<Rightarrow> ('h manager \<Rightarrow> 'h manager) set \<Rightarrow> bool" where
  "host_keeps_membership opts invoke tasks =
     ((\<forall>callback w m. onSocketConnection opts = Some callback \<and> registry_inv m \<and>
           w \<in> snd ` set (sockets m) \<longrightarrow> registry_inv (callback w m)) \<and>
      (\<forall>h w d m. registry_inv m \<and> w \<in> snd ` set (sockets m) \<longrightarrow>
           registry_inv (state_of (invoke h w d m))) \<and>
      (\<forall>f \<in> tasks. \<forall>m. registry_inv m \<longrightarrow> registry_inv (f m)))"

text \<open>Host code that joins or leaves a room of any name for a socket, in the paired way.\<close>

definition paired_join :: "ws \<Rightarrow> string \<Rightarrow> 'h manager \<Rightarrow> 'h manager" where
  "paired_join w roomName m = rooms_add w roomName (joinRoom (ud_id (udata m w)) roomName m)"

definition paired_leave :: "ws \<Rightarrow> string \<Rightarrow> 'h manager \<Rightarrow> 'h manager" where
  "paired_leave w roomName m = rooms_delete w roomName (leaveRoom (ud_id (udata m w)) roomName m)"

section \<open>Notions used in the statements\<close>

text \<open>
  The frames a broadcast owes: one for each listed id that is not excluded and has a socket
  in the connection table, in the order of the list; none if the data does not serialise.
\<close>

definition room_frames ::
    "(string \<times> ws) list \<Rightarrow> data \<Rightarrow> string \<Rightarrow> string option \<Rightarrow> string list \<Rightarrow> frame list" where
  "room_frames table d eventName excludeSocketId socketIds =
     (if serialises d
      then concat (map (\<lambda>socketId.
             if is_excluded excludeSocketId socketId then []
             else case Map_get table socketId of
                    Some socket \<Rightarrow> [(socket, eventName, d)]
                  | None \<Rightarrow> [])
           socketIds)
      else [])"

text \<open>The envelope that \<open>publishToRedis\<close> builds, and what reaches the channel.\<close>

definition relay_envelope :: "string \<Rightarrow> string \<Rightarrow> string \<Rightarrow> data \<Rightarrow> envelope" where
  "relay_envelope kind room eventName d =
     \<lparr>env_type = kind, env_room = room, env_eventName = eventName, env_event = d, env_message = d\<rparr>"

definition relayed_out :: "'h manager \<Rightarrow> data \<Rightarrow> envelope list \<Rightarrow> envelope list" where
  "relayed_out m d es = (if pubClient m \<and> serialises d then es else [])"

text \<open>
  The event that is delivered and the collection that routes it: what the transform
  returns, and the collection of its argument after the call.
\<close>

definition transformed :: "'h options \<Rightarrow> realtime_event \<Rightarrow> realtime_event \<times> realtime_event" where
  "transformed opts event =
     (case transformEvent opts of Some t \<Rightarrow> t event | None \<Rightarrow> (event, event))"

definition final_event :: "'h options \<Rightarrow> realtime_event \<Rightarrow> realtime_event" where
  "final_event opts event = fst (transformed opts event)"

definition routing_collection :: "'h options \<Rightarrow> realtime_event \<Rightarrow> string" where
  "routing_collection opts event = ev_collection (snd (transformed opts event))"

text \<open>Authorization is configured and holds a predicate under the collection's name.\<close>

definition registered_for :: "'h options \<Rightarrow> string \<Rightarrow> bool" where
  "registered_for opts collection =
     (case authorize opts of Some auth \<Rightarrow> auth collection \<noteq> None | None \<Rightarrow> False)"

text \<open>The event passes the global filter, or there is none.\<close>

definition passes_filter :: "'h options \<Rightarrow> realtime_event \<Rightarrow> bool" where
  "passes_filter opts event = (case shouldEmit opts of Some f \<Rightarrow> f event | None \<Rightarrow> True)"

text \<open>
  The frames of the global feed: one for each entry of the connection table, none if the
  event does not serialise.
\<close>

definition all_feed_frames :: "(string \<times> ws) list \<Rightarrow> realtime_event \<Rightarrow> frame list" where
  "all_feed_frames table e =
     (if serialises (DEvent e)
      then map (\<lambda>(socketId, socket). (socket, ''payload:event:all'', DEvent e)) table
      else [])"

text \<open>
  The room-scoped frames of the authorized path when nothing disturbs the loop: one for
  each listed id whose socket has an identity for which the predicate is fulfilled with
  true.
\<close>

definition authorized_frames ::
    "predicate \<Rightarrow> realtime_event \<Rightarrow> 'h manager \<Rightarrow> string list \<Rightarrow> frame list" where
  "authorized_frames h e m socketIds =
     concat (map (\<lambda>socketId.
        case Map_get (sockets m) socketId of
          None \<Rightarrow> []
        | Some socket \<Rightarrow>
            (case ud_user (udata m socket) of
               None \<Rightarrow> []
             | Some u \<Rightarrow>
                 if h u e = Fulfils True \<and> serialises (DEvent e)
                 then [(socket, ''payload:event'', DEvent e)] else []))
      socketIds)"

text \<open>
  The promise of the predicate is fulfilled for every listed id with a socket and an
  identity.
\<close>

definition fulfils_for :: "predicate \<Rightarrow> realtime_event \<Rightarrow> 'h manager \<Rightarrow> string list \<Rightarrow> bool" where
  "fulfils_for h e m socketIds =
     (\<forall>socketId \<in> set socketIds. \<forall>socket u.
        Map_get (sockets m) socketId = Some socket \<and> ud_user (udata m socket) = Some u \<longrightarrow>
        (\<exists>b. h u e = Fulfils b))"

text \<open>A room holds an id that the connection table does not know.\<close>

definition has_unknown_member :: "'h manager \<Rightarrow> string \<Rightarrow> bool" where
  "has_unknown_member m room =
     (\<exists>socketId \<in> set (getSocketsInRoom m room). Map_get (sockets m) socketId = None)"

text \<open>
  What the other tasks are asked for in two statements: they open no socket under an id
  that the table does not know; they leave the connection table and the user data of the
  sockets as they are.
\<close>

definition open_no_unknown :: "'h others \<Rightarrow> bool" where
  "open_no_unknown others =
     (\<forall>f \<in> set others. \<forall>m socketId.
        Map_get (sockets m) socketId = None \<longrightarrow> Map_get (sockets (f m)) socketId = None)"

definition leave_sockets :: "'h others \<Rightarrow> bool" where
  "leave_sockets others =
     (\<forall>f \<in> set others. \<forall>m. sockets (f m) = sockets m \<and> udata (f m) = udata m)"

text \<open>A sequence of calls of \<open>on\<close>, and the handler that was registered last for a label.\<close>

definition register_all :: "(string \<times> 'h) list \<Rightarrow> 'h manager \<Rightarrow> 'h manager" where
  "register_all regs m = fold (\<lambda>reg. on (fst reg) (snd reg)) regs m"

definition last_registered :: "(string \<times> 'h) list \<Rightarrow> 'h manager \<Rightarrow> string \<Rightarrow> 'h option" where
  "last_registered regs m label =
     (case map_of (rev regs) label of Some h \<Rightarrow> Some h | None \<Rightarrow> customHandlers m label)"

text \<open>The rooms that a join or leave message names.\<close>

definition rooms_of :: "msg_data \<Rightarrow> string list" where
  "rooms_of d = map (\<lambda>coll. ''collection:'' @ coll) (collections_of d)"




section \<open>Example data\<close>

text \<open>The user data of the transport before any socket exists.\<close>

definition no_user_data :: "ws \<Rightarrow> user_data" where
  "no_user_data w = \<lparr>ud_user = None, ud_id = [], ud_rooms = []\<rparr>"

text \<open>Three users and an event for the examples.\<close>

definition alice :: user where
  "alice = \<lparr>u_id = IdNum 1, u_email = Some ''alice@example.com'', u_collection = ''users'',
            u_role = None\<rparr>"

definition bob :: user where
  "bob = \<lparr>u_id = IdNum 2, u_email = Some ''bob@example.com'', u_collection = ''users'',
          u_role = Some ''editor''\<rparr>"


definition post7 :: realtime_event where
  "post7 = \<lparr>ev_type = Update, ev_collection = ''posts'', ev_id = IdNum 7,
            ev_doc = Some (Json ''{}''), ev_user = None,
            ev_timestamp = ''2024-01-01T00:00:00.000Z''\<rparr>"

text \<open>
  The same event for a collection with the slug \<open>constructor\<close>, and with a document that
  does not serialise.
\<close>

definition constructor7 :: realtime_event where
  "constructor7 = post7\<lparr>ev_collection := ''constructor''\<rparr>"

definition cyclic7 :: realtime_event where
  "cyclic7 = post7\<lparr>ev_doc := Some NotJson\<rparr>"

text \<open>The handshake of alice, suspended at the lookup, and her user document.\<close>

definition alice_pending :: pending where
  "alice_pending = \<lparr>p_aborted = False, p_decoded = \<lparr>dec_collection = None, dec_id = IdNum 1\<rparr>,
                     p_key = ''key'', p_protocol = '''', p_extensions = ''''\<rparr>"

definition alice_doc :: user_doc where
  "alice_doc = \<lparr>doc_id = IdNum 1, doc_email = Some ''alice@example.com'', doc_role = None\<rparr>"

text \<open>
  A request with a token, a verification that accepts every token as user 1, and options
  without any hook.
\<close>

definition token_request :: upgrade_request where
  "token_request = \<lparr>req_token = Some ''jwt'', req_key = ''key'', req_protocol = '''',
                     req_extensions = ''''\<rparr>"

definition accept_any :: "string \<Rightarrow> decoded_token option" where
  "accept_any token = Some \<lparr>dec_collection = None, dec_id = IdNum 1\<rparr>"

definition no_hooks :: "nat options" where
  "no_hooks = \<lparr>authorize = None, shouldEmit = None, transformEvent = None,
                onSocketConnection = None\<rparr>"

text \<open>
  An instance connected to Redis with one open connection \<open>c1\<close>, which has joined
  \<open>collection:posts\<close>.
\<close>

definition relay_instance :: "nat manager" where
  "relay_instance =
     \<lparr>sockets = [(''c1'', 1)],
      rooms = [''collection:posts'' \<mapsto> [''c1'']],
      customHandlers = Map.empty,
      pubClient = True,
      udata = no_user_data(1 := \<lparr>ud_user = Some alice, ud_id = ''c1'',
                                  ud_rooms = [''collection:posts'']\<rparr>),
      sent = [], published = []\<rparr>"

text \<open>
  The room \<open>collection:posts\<close> holds \<open>c1\<close>, which is connected, and \<open>c9\<close>, which was
  added with \<open>joinRoom\<close> and has no entry in the connection table.
\<close>

definition stale_member_instance :: "nat manager" where
  "stale_member_instance = joinRoom ''c9'' ''collection:posts'' relay_instance"

text \<open>
  Two open connections, \<open>c1\<close> of alice on socket 1 and \<open>c2\<close> of bob on socket 2, both
  members of the one room given.
\<close>

definition two_in_room :: "string \<Rightarrow> nat manager" where
  "two_in_room room =
     \<lparr>sockets = [(''c1'', 1), (''c2'', 2)],
      rooms = [room \<mapsto> [''c1'', ''c2'']],
      customHandlers = Map.empty,
      pubClient = False,
      udata = no_user_data
        (1 := \<lparr>ud_user = Some alice, ud_id = ''c1'', ud_rooms = [room]\<rparr>,
         2 := \<lparr>ud_user = Some bob, ud_id = ''c2'', ud_rooms = [room]\<rparr>),
      sent = [], published = []\<rparr>"


text \<open>Authorization is configured and has a predicate for nothing but \<open>projects\<close>.\<close>

definition projects_only :: "nat options" where
  "projects_only =
     \<lparr>authorize = Some [''projects'' \<mapsto> (\<lambda>u e. Fulfils True)], shouldEmit = None,
      transformEvent = None, onSocketConnection = None\<rparr>"

text \<open>Authorization with a predicate for \<open>posts\<close> that lets every user through.\<close>

definition posts_for_all :: "nat options" where
  "posts_for_all =
     \<lparr>authorize = Some [''posts'' \<mapsto> (\<lambda>u e. Fulfils True)], shouldEmit = None,
      transformEvent = None, onSocketConnection = None\<rparr>"

text \<open>A transform that returns the event moved to the collection \<open>pages\<close>, as a new object.\<close>

definition to_pages :: "realtime_event \<Rightarrow> realtime_event" where
  "to_pages e = e\<lparr>ev_collection := ''pages''\<rparr>"

definition rename_opts :: "nat options" where
  "rename_opts =
     \<lparr>authorize = None, shouldEmit = None, transformEvent = Some (\<lambda>e. (to_pages e, e)),
      onSocketConnection = None\<rparr>"

text \<open>A transform that writes the new collection to the event it is given and returns it.\<close>

definition move_opts :: "nat options" where
  "move_opts =
     \<lparr>authorize = None, shouldEmit = None, transformEvent = Some (\<lambda>e. (to_pages e, to_pages e)),
      onSocketConnection = None\<rparr>"

text \<open>
  The same transform with a predicate for \<open>posts\<close> that lets editors through and one for
  \<open>pages\<close> that lets nobody through.
\<close>

definition editors_only :: predicate where
  "editors_only u e = Fulfils (u_role u = Some ''editor'')"

definition editors_rename_opts :: "nat options" where
  "editors_rename_opts =
     \<lparr>authorize = Some [''posts'' \<mapsto> editors_only, ''pages'' \<mapsto> (\<lambda>u e. Fulfils False)],
      shouldEmit = None, transformEvent = Some (\<lambda>e. (to_pages e, e)),
      onSocketConnection = None\<rparr>"

text \<open>
  Handlers for the examples: the handler numbered \<open>h\<close> answers on the socket with \<open>h\<close>
  stars; handler \<open>0\<close> throws.
\<close>

definition star_invoke :: "nat invoke" where
  "star_invoke h w d m =
     (if h = 0 then Throws TypeError m
      else Normal (sendToSocket w ''reply'' (DOther (Json (replicate h (CHR ''*'')))) m))"

text \<open>
  A host with custom rooms: its callback registers a handler for \<open>join-room\<close>, and the
  handler joins the room that the message names, in the paired way.
\<close>

definition room_hooks :: "nat options" where
  "room_hooks = \<lparr>authorize = None, shouldEmit = None, transformEvent = None,
                  onSocketConnection = Some (\<lambda>w m. on ''join-room'' 1 m)\<rparr>"

definition room_invoke :: "nat invoke" where
  "room_invoke h w d m =
     (case d of Single roomName \<Rightarrow> Normal (paired_join w roomName m) | Array rs \<Rightarrow> Normal m)"

text \<open>The state of that host after alice has connected and joined \<open>project:42\<close>.\<close>

definition project_member :: "nat manager" where
  "project_member =
     \<lparr>sockets = [(''c1'', 1)],
      rooms = [''project:42'' \<mapsto> [''c1'']],
      customHandlers = [''join-room'' \<mapsto> 1],
      pubClient = False,
      udata = no_user_data(1 := \<lparr>ud_user = Some alice, ud_id = ''c1'',
                                  ud_rooms = [''project:42'']\<rparr>),
      sent = [], published = []\<rparr>"

section \<open>Properties of the room registry\<close>

lemma Set_add_member [simp]: "set (Set_add x xs) = insert x (set xs)"
  by (auto simp: Set_add_def)

lemma Set_add_not_Nil [simp]: "Set_add x xs \<noteq> []"
  by (auto simp: Set_add_def)

lemma Set_add_idem [simp]: "Set_add x (Set_add x xs) = Set_add x xs"
  by (simp add: Set_add_def)

lemma Set_add_distinct: "distinct xs \<Longrightarrow> distinct (Set_add x xs)"
  by (simp add: Set_add_def)

lemma Set_delete_member [simp]: "set (Set_delete x xs) = set xs - {x}"
  by (simp add: Set_delete_def)

lemma Set_delete_idem [simp]: "Set_delete x (Set_delete x xs) = Set_delete x xs"
  by (simp add: Set_delete_def)

lemma Set_delete_absent: "x \<notin> set xs \<Longrightarrow> Set_delete x xs = xs"
  by (simp add: Set_delete_def)

lemma joinRoom_rooms:
  "rooms (joinRoom c r m) = (rooms m)(r \<mapsto> Set_add c (getSocketsInRoom m r))"
  by (cases "rooms m r") (simp_all add: joinRoom_def getSocketsInRoom_def)

lemma joinRoom_other [simp]:
  "sockets (joinRoom c r m) = sockets m" "customHandlers (joinRoom c r m) = customHandlers m"
  "pubClient (joinRoom c r m) = pubClient m" "udata (joinRoom c r m) = udata m"
  "sent (joinRoom c r m) = sent m" "published (joinRoom c r m) = published m"
  by (cases "rooms m r"; simp add: joinRoom_def)+

lemma joinRoom_eq:
  "joinRoom c r m = m\<lparr>rooms := (rooms m)(r \<mapsto> Set_add c (getSocketsInRoom m r))\<rparr>"
  by (cases "rooms m r") (simp_all add: joinRoom_def getSocketsInRoom_def)

lemma leaveRoom_rooms:
  "rooms (leaveRoom c r m) =
     (case rooms m r of None \<Rightarrow> rooms m
      | Some room \<Rightarrow> if Set_delete c room = [] then (rooms m)(r := None)
                     else (rooms m)(r \<mapsto> Set_delete c room))"
  by (simp add: leaveRoom_def Let_def split: option.splits)

lemma leaveRoom_other [simp]:
  "sockets (leaveRoom c r m) = sockets m" "customHandlers (leaveRoom c r m) = customHandlers m"
  "pubClient (leaveRoom c r m) = pubClient m" "udata (leaveRoom c r m) = udata m"
  "sent (leaveRoom c r m) = sent m" "published (leaveRoom c r m) = published m"
  by (simp_all add: leaveRoom_def Let_def split: option.splits)

lemma getSocketsInRoom_joinRoom:
  "getSocketsInRoom (joinRoom c r m) r' =
     (if r' = r then Set_add c (getSocketsInRoom m r) else getSocketsInRoom m r')"
  by (simp add: getSocketsInRoom_def joinRoom_rooms)

lemma getSocketsInRoom_leaveRoom:
  "getSocketsInRoom (leaveRoom c r m) r' =
     (if r' = r then Set_delete c (getSocketsInRoom m r) else getSocketsInRoom m r')"
  by (simp add: getSocketsInRoom_def leaveRoom_rooms Set_delete_def split: option.splits)

lemma no_empty_room_joinRoom: "no_empty_room m \<Longrightarrow> no_empty_room (joinRoom c r m)"
  by (simp add: no_empty_room_def joinRoom_rooms)

lemma no_empty_room_leaveRoom: "no_empty_room m \<Longrightarrow> no_empty_room (leaveRoom c r m)"
  by (auto simp: no_empty_room_def leaveRoom_rooms split: option.splits if_splits)

lemma no_empty_room_fold:
  "no_empty_room m \<Longrightarrow> no_empty_room (fold apply_room_op ops m)"
proof (induction ops arbitrary: m)
  case Nil
  then show ?case by simp
next
  case (Cons a ops)
  have "no_empty_room (apply_room_op a m)"
    using Cons.prems by (cases a) (simp_all add: no_empty_room_joinRoom no_empty_room_leaveRoom)
  then show ?case by (simp add: Cons.IH)
qed

lemma no_empty_room_new: "no_empty_room (new_manager redis ud)"
  by (simp add: no_empty_room_def new_manager_def)

lemma leaveRoom_idem: "leaveRoom c r (leaveRoom c r m) = leaveRoom c r m"
proof (cases "rooms m r")
  case None
  then show ?thesis by (simp add: leaveRoom_def)
next
  case (Some room)
  show ?thesis
  proof (cases "Set_delete c room = []")
    case True
    with Some show ?thesis by (simp add: leaveRoom_def)
  next
    case False
    with Some show ?thesis by (simp add: leaveRoom_def)
  qed
qed

lemma leaveRoom_not_member:
  assumes "c \<notin> set (getSocketsInRoom m r)" and "no_empty_room m"
  shows "leaveRoom c r m = m"
proof (cases "rooms m r")
  case None
  then show ?thesis by (simp add: leaveRoom_def)
next
  case (Some room)
  with assms have "Set_delete c room = room" "room \<noteq> []"
    by (simp_all add: getSocketsInRoom_def Set_delete_absent no_empty_room_def)
  with Some show ?thesis by (simp add: leaveRoom_def map_upd_triv)
qed

text \<open>
  Claim C8. Starting from a new manager, after any sequence of \<open>joinRoom\<close> and
  \<open>leaveRoom\<close> calls no room of the registry has an empty member set; and the
  \<open>leaveRoom\<close> call that removes the last member of a room deletes the room in the same
  call, so that the registry has no entry for it afterwards and the membership query
  returns the empty list.
\<close>

theorem c8_no_empty_room:
  "no_empty_room (run_room_ops ops (new_manager redis ud :: 'h manager)) \<and>
   (\<forall>m :: 'h manager. getSocketsInRoom m r = [c] \<longrightarrow>
      rooms (leaveRoom c r m) r = None \<and> getSocketsInRoom (leaveRoom c r m) r = [])"
proof
  show "no_empty_room (run_room_ops ops (new_manager redis ud :: 'h manager))"
    unfolding run_room_ops_def by (rule no_empty_room_fold [OF no_empty_room_new])
next
  show "\<forall>m :: 'h manager. getSocketsInRoom m r = [c] \<longrightarrow>
      rooms (leaveRoom c r m) r = None \<and> getSocketsInRoom (leaveRoom c r m) r = []"
    by (auto simp: getSocketsInRoom_def leaveRoom_rooms Set_delete_def split: option.splits)
qed

theorem c8_no_empty_room_witness:
  "no_empty_room (run_room_ops [Join ''c1'' ''room:alpha'', Join ''c2'' ''room:alpha'',
       Leave ''c2'' ''room:alpha''] (new_manager False no_user_data :: nat manager)) \<and>
   getSocketsInRoom (joinRoom ''c1'' ''room:alpha'' (new_manager False no_user_data :: nat manager))
      ''room:alpha'' = [''c1''] \<and>
   rooms (leaveRoom ''c1'' ''room:alpha''
      (joinRoom ''c1'' ''room:alpha'' (new_manager False no_user_data :: nat manager))) ''room:alpha'' = None"
proof -
  let ?m = "joinRoom ''c1'' ''room:alpha'' (new_manager False no_user_data :: nat manager)"
  have h: "getSocketsInRoom ?m ''room:alpha'' = [''c1'']"
    by (simp add: joinRoom_rooms Set_add_def getSocketsInRoom_def new_manager_def)
  from c8_no_empty_room [where ops = "[Join ''c1'' ''room:alpha'', Join ''c2'' ''room:alpha'',
       Leave ''c2'' ''room:alpha'']" and redis = False and ud = no_user_data and r = "''room:alpha''"
       and c = "''c1''", where ?'h = nat] h
  show ?thesis by blast
qed

text \<open>
  Claim C9. Joining a room a second time with the same connection id gives the state that
  joining once gives, and a room that did not exist has exactly one member after the two
  calls. Leaving a second time gives the state that leaving once gives; leaving a room that
  does not exist, or a room of which the id is not a member, changes nothing. Both
  operations return a state for every input: they have no failing branch.
\<close>

theorem c9_idempotent:
  "joinRoom c r (joinRoom c r m) = joinRoom c r m \<and>
   (rooms m r = None \<longrightarrow> length (getSocketsInRoom (joinRoom c r (joinRoom c r m)) r) = 1) \<and>
   leaveRoom c r (leaveRoom c r m) = leaveRoom c r m \<and>
   (rooms m r = None \<longrightarrow> leaveRoom c r m = m) \<and>
   (no_empty_room m \<and> c \<notin> set (getSocketsInRoom m r) \<longrightarrow> leaveRoom c r m = m)"
proof -
  have j: "joinRoom c r (joinRoom c r m) = joinRoom c r m"
    by (simp add: joinRoom_eq getSocketsInRoom_def)
  have s: "rooms m r = None \<longrightarrow> length (getSocketsInRoom (joinRoom c r (joinRoom c r m)) r) = 1"
    by (simp add: j joinRoom_rooms getSocketsInRoom_def Set_add_def)
  have n: "rooms m r = None \<longrightarrow> leaveRoom c r m = m"
    by (simp add: leaveRoom_def)
  show ?thesis
    using j s n leaveRoom_idem [of c r m] leaveRoom_not_member [of c m r] by blast
qed

theorem c9_idempotent_witness:
  "rooms (new_manager False no_user_data :: nat manager) ''collection:posts'' = None \<and>
   length (getSocketsInRoom (joinRoom ''c1'' ''collection:posts''
      (joinRoom ''c1'' ''collection:posts'' (new_manager False no_user_data :: nat manager)))
      ''collection:posts'') = 1 \<and>
   leaveRoom ''c1'' ''collection:posts'' (new_manager False no_user_data :: nat manager)
     = new_manager False no_user_data \<and>
   no_empty_room (new_manager False no_user_data :: nat manager) \<and>
   ''c1'' \<notin> set (getSocketsInRoom (new_manager False no_user_data :: nat manager) ''collection:posts'')"
proof -
  let ?m = "new_manager False no_user_data :: nat manager"
  have h: "rooms ?m ''collection:posts'' = None" by (simp add: new_manager_def)
  have e: "no_empty_room ?m" by (rule no_empty_room_new)
  have a: "''c1'' \<notin> set (getSocketsInRoom ?m ''collection:posts'')"
    by (simp add: getSocketsInRoom_def new_manager_def)
  from c9_idempotent [of "''c1''" "''collection:posts''" ?m] h e a
  show ?thesis by blast
qed

section \<open>Properties of broadcast and relay\<close>

lemma sendToSocket_simps [simp]:
  "sockets (sendToSocket w l d m) = sockets m" "rooms (sendToSocket w l d m) = rooms m"
  "customHandlers (sendToSocket w l d m) = customHandlers m"
  "pubClient (sendToSocket w l d m) = pubClient m" "udata (sendToSocket w l d m) = udata m"
  "sent (sendToSocket w l d m) = sent m @ (if serialises d then [(w, l, d)] else [])"
  "published (sendToSocket w l d m) = published m"
  by (simp_all add: sendToSocket_def)

lemma publishToRedis_simps [simp]:
  "sockets (publishToRedis k r l d m) = sockets m" "rooms (publishToRedis k r l d m) = rooms m"
  "customHandlers (publishToRedis k r l d m) = customHandlers m"
  "pubClient (publishToRedis k r l d m) = pubClient m" "udata (publishToRedis k r l d m) = udata m"
  "sent (publishToRedis k r l d m) = sent m"
  "published (publishToRedis k r l d m) =
     published m @ relayed_out m d [relay_envelope k r l d]"
  by (simp_all add: publishToRedis_def relay_envelope_def relayed_out_def)

lemma broadcast_step_simps [simp]:
  "sockets (broadcast_step d l ex i m) = sockets m" "rooms (broadcast_step d l ex i m) = rooms m"
  "customHandlers (broadcast_step d l ex i m) = customHandlers m"
  "pubClient (broadcast_step d l ex i m) = pubClient m"
  "udata (broadcast_step d l ex i m) = udata m"
  "published (broadcast_step d l ex i m) = published m"
  by (simp_all add: broadcast_step_def split: option.splits)

lemma broadcast_step_sent:
  "sent (broadcast_step d l ex i m) = sent m @ room_frames (sockets m) d l ex [i]"
  by (simp add: broadcast_step_def room_frames_def split: option.splits)

lemma fold_broadcast_step_simps [simp]:
  "sockets (fold (broadcast_step d l ex) ids m) = sockets m"
  "rooms (fold (broadcast_step d l ex) ids m) = rooms m"
  "customHandlers (fold (broadcast_step d l ex) ids m) = customHandlers m"
  "pubClient (fold (broadcast_step d l ex) ids m) = pubClient m"
  "udata (fold (broadcast_step d l ex) ids m) = udata m"
  "published (fold (broadcast_step d l ex) ids m) = published m"
  by (induction ids arbitrary: m; simp)+

lemma room_frames_Nil [simp]: "room_frames t d l ex [] = []"
  by (simp add: room_frames_def)

lemma room_frames_Cons:
  "room_frames t d l ex (i # ids) = room_frames t d l ex [i] @ room_frames t d l ex ids"
  by (simp add: room_frames_def)

lemma room_frames_append:
  "room_frames t d l ex (xs @ ys) = room_frames t d l ex xs @ room_frames t d l ex ys"
  by (simp add: room_frames_def)

lemma fold_broadcast_step_sent:
  "sent (fold (broadcast_step d l ex) ids m) = sent m @ room_frames (sockets m) d l ex ids"
proof (induction ids arbitrary: m)
  case Nil
  then show ?case by simp
next
  case (Cons i ids)
  show ?case
    by (simp add: Cons.IH broadcast_step_sent room_frames_Cons [of _ _ _ _ i ids])
qed

lemma broadcastToRoom_simps [simp]:
  "sockets (broadcastToRoom r d l ex m) = sockets m"
  "rooms (broadcastToRoom r d l ex m) = rooms m"
  "customHandlers (broadcastToRoom r d l ex m) = customHandlers m"
  "pubClient (broadcastToRoom r d l ex m) = pubClient m"
  "udata (broadcastToRoom r d l ex m) = udata m"
  by (simp_all add: broadcastToRoom_def Let_def)

lemma broadcastToRoom_sent:
  "sent (broadcastToRoom r d l ex m) =
     sent m @ room_frames (sockets m) d l ex (getSocketsInRoom m r)"
  by (simp add: broadcastToRoom_def Let_def fold_broadcast_step_sent)

lemma broadcastToRoom_published:
  "published (broadcastToRoom r d l ex m) =
     published m @ relayed_out m d [relay_envelope ''room-broadcast'' r l d]"
  by (simp add: broadcastToRoom_def Let_def relayed_out_def)

lemma getSocketsInRoom_cong:
  "rooms m' = rooms m \<Longrightarrow> getSocketsInRoom m' r = getSocketsInRoom m r"
  by (simp add: getSocketsInRoom_def)

lemma handleRedisMessage_simps [simp]:
  "sockets (handleRedisMessage c msg m) = sockets m"
  "rooms (handleRedisMessage c msg m) = rooms m"
  "customHandlers (handleRedisMessage c msg m) = customHandlers m"
  "pubClient (handleRedisMessage c msg m) = pubClient m"
  "udata (handleRedisMessage c msg m) = udata m"
  by (simp_all add: handleRedisMessage_def split: relay_message.splits)

lemma set_room_frames:
  "set (room_frames t d l ex ids) =
     {(w, l, d) |i w. serialises d \<and> i \<in> set ids \<and> \<not> is_excluded ex i \<and> Map_get t i = Some w}"
  by (induction ids) (auto simp: room_frames_def split: option.splits)

lemma serialises_post7 [simp]: "serialises (DEvent post7)"
  by (simp add: serialises_def post7_def)

text \<open>
  Claim C1, evaluated on the code. An instance that is connected to Redis receives the
  relay message that a peer's \<open>emitEvent\<close> published for \<open>collection:posts\<close>. The
  handler delivers the event to the local member and, because it goes through
  \<open>broadcastToRoom\<close>, publishes a \<open>room-broadcast\<close> envelope to the channel again.
\<close>

theorem c1_relay_republishes:
  "sent (handleRedisMessage ''uwebsocket:events''
      (Parsed (relay_envelope ''event'' ''collection:posts'' ''payload:event'' (DEvent post7)))
      relay_instance) = [(1, ''payload:event'', DEvent post7)] \<and>
   published (handleRedisMessage ''uwebsocket:events''
      (Parsed (relay_envelope ''event'' ''collection:posts'' ''payload:event'' (DEvent post7)))
      relay_instance) =
     [relay_envelope ''room-broadcast'' ''collection:posts'' ''payload:event'' (DEvent post7)]"
proof -
  have g: "getSocketsInRoom relay_instance ''collection:posts'' = [''c1'']"
    by (simp add: getSocketsInRoom_def relay_instance_def)
  have t: "sockets relay_instance = [(''c1'', Suc 0)]" "sent relay_instance = []"
    "published relay_instance = []" "pubClient relay_instance"
    by (simp_all add: relay_instance_def)
  show ?thesis
    by (simp add: handleRedisMessage_def relay_envelope_def broadcastToRoom_sent
        broadcastToRoom_published g t room_frames_def is_excluded_def Map_get_def
        relayed_out_def)
qed

section \<open>Properties of the close handler\<close>

lemma close_step_simps [simp]:
  "sockets (close_step ud r m) = sockets m"
  "customHandlers (close_step ud r m) = customHandlers m"
  "pubClient (close_step ud r m) = pubClient m"
  "udata (close_step ud r m) = udata m"
  by (simp_all add: close_step_def Let_def split: option.splits)

lemma getSocketsInRoom_close_step:
  "getSocketsInRoom (close_step ud r m) r' =
     (if r' = r then Set_delete (ud_id ud) (getSocketsInRoom m r) else getSocketsInRoom m r')"
  by (simp add: close_step_def Let_def getSocketsInRoom_leaveRoom
      getSocketsInRoom_cong [of "broadcastToRoom _ _ _ _ m" m] split: option.splits)


lemma fold_close_step_simps [simp]:
  "sockets (fold (close_step ud) rs m) = sockets m"
  "customHandlers (fold (close_step ud) rs m) = customHandlers m"
  "pubClient (fold (close_step ud) rs m) = pubClient m"
  "udata (fold (close_step ud) rs m) = udata m"
  by (induction rs arbitrary: m; simp)+

lemma fold_close_step_members:
  "getSocketsInRoom (fold (close_step ud) rs m) r =
     (if r \<in> set rs then Set_delete (ud_id ud) (getSocketsInRoom m r) else getSocketsInRoom m r)"
  by (induction rs arbitrary: m) (auto simp: getSocketsInRoom_close_step)





lemma ws_close_sockets: "sockets (ws_close w m) = Map_delete (ud_id (udata m w)) (sockets m)"
  by (simp add: ws_close_def Let_def)

lemma ws_close_udata: "udata (ws_close w m) = udata m"
  by (simp add: ws_close_def Let_def)

lemma ws_close_members:
  "getSocketsInRoom (ws_close w m) r =
     (if r \<in> set (ud_rooms (udata m w))
      then Set_delete (ud_id (udata m w)) (getSocketsInRoom m r) else getSocketsInRoom m r)"
proof -
  have "getSocketsInRoom (ws_close w m) r =
      getSocketsInRoom (fold (close_step (udata m w)) (ud_rooms (udata m w)) m) r"
    by (simp add: ws_close_def Let_def getSocketsInRoom_def)
  then show ?thesis by (simp only: fold_close_step_members)
qed






section \<open>Properties of the event dispatcher\<close>

lemma state_of_simps [simp]: "state_of (Normal s) = s" "state_of (Throws e s) = s"
  by (simp_all add: state_of_def)

lemma all_feed_step_simps [simp]:
  "sockets (all_feed_step e i m) = sockets m" "rooms (all_feed_step e i m) = rooms m"
  "customHandlers (all_feed_step e i m) = customHandlers m"
  "pubClient (all_feed_step e i m) = pubClient m" "udata (all_feed_step e i m) = udata m"
  "published (all_feed_step e i m) = published m"
  by (simp_all add: all_feed_step_def split: option.splits)

lemma fold_all_feed_step_simps [simp]:
  "sockets (fold (all_feed_step e) ids m) = sockets m"
  "rooms (fold (all_feed_step e) ids m) = rooms m"
  "customHandlers (fold (all_feed_step e) ids m) = customHandlers m"
  "pubClient (fold (all_feed_step e) ids m) = pubClient m"
  "udata (fold (all_feed_step e) ids m) = udata m"
  "published (fold (all_feed_step e) ids m) = published m"
  by (induction ids arbitrary: m; simp)+

lemma fold_all_feed_step_sent:
  "sent (fold (all_feed_step e) ids m) =
     sent m @ room_frames (sockets m) (DEvent e) ''payload:event:all'' None ids"
proof (induction ids arbitrary: m)
  case Nil
  then show ?case by simp
next
  case (Cons i ids)
  have "sent (all_feed_step e i m) =
      sent m @ room_frames (sockets m) (DEvent e) ''payload:event:all'' None [i]"
    by (simp add: all_feed_step_def room_frames_def is_excluded_def split: option.splits)
  then show ?case
    by (simp add: Cons.IH room_frames_Cons [of _ _ _ _ i ids])
qed

lemma feed_and_relay_simps [simp]:
  "sockets (feed_and_relay e r m) = sockets m" "rooms (feed_and_relay e r m) = rooms m"
  "customHandlers (feed_and_relay e r m) = customHandlers m"
  "pubClient (feed_and_relay e r m) = pubClient m" "udata (feed_and_relay e r m) = udata m"
  by (simp_all add: feed_and_relay_def Let_def)

lemma feed_and_relay_sent:
  "sent (feed_and_relay e r m) =
     sent m @ room_frames (sockets m) (DEvent e) ''payload:event:all'' None (map fst (sockets m))"
  by (simp add: feed_and_relay_def Let_def fold_all_feed_step_sent)

lemma feed_and_relay_published:
  "published (feed_and_relay e r m) =
     published m @ relayed_out m (DEvent e) [relay_envelope ''event'' r ''payload:event'' (DEvent e)]"
  by (simp add: feed_and_relay_def Let_def relayed_out_def)

lemma room_frames_all_keys:
  assumes "distinct (map fst table)" and "set ps \<subseteq> set table" and "serialises d"
  shows "room_frames table d l None (map fst ps) = map (\<lambda>(i, w). (w, l, d)) ps"
  using assms(2)
proof (induction ps)
  case Nil
  then show ?case by simp
next
  case (Cons p ps)
  obtain i w where p: "p = (i, w)" by (cases p)
  with Cons.prems assms(1) have "map_of table i = Some w" by simp
  then have "room_frames table d l None [i] = [(w, l, d)]"
    by (simp add: room_frames_def is_excluded_def Map_get_def assms(3))
  with Cons show ?case
    by (simp add: room_frames_Cons [of _ _ _ _ i "map fst ps"] p)
qed

lemma all_feed_frames_eq:
  assumes "distinct (map fst table)"
  shows "room_frames table (DEvent e) ''payload:event:all'' None (map fst table) =
           all_feed_frames table e"
proof (cases "serialises (DEvent e)")
  case True
  with room_frames_all_keys [OF assms subset_refl True] show ?thesis
    by (simp add: all_feed_frames_def)
next
  case False
  then show ?thesis by (simp add: all_feed_frames_def room_frames_def)
qed

text \<open>The three ways through \<open>emitEvent\<close> for an event that passes the filter.\<close>

lemma emitEvent_unauthorized:
  assumes "passes_filter opts event" and "authorize opts = None"
  shows "emitEvent opts others event m =
     Normal (feed_and_relay (final_event opts event)
        (''collection:'' @ routing_collection opts event)
        (broadcastToRoom (''collection:'' @ routing_collection opts event)
           (DEvent (final_event opts event)) ''payload:event'' None m))"
  using assms
  by (simp add: emitEvent_def passes_filter_def final_event_def routing_collection_def
      transformed_def Let_def split_beta split: option.splits completion.splits)

lemma emitEvent_default_deny:
  assumes "passes_filter opts event" and "authorize opts = Some auth"
    and "property_get auth (routing_collection opts event) = None"
  shows "emitEvent opts others event m =
     Normal (feed_and_relay (final_event opts event)
        (''collection:'' @ routing_collection opts event) m)"
  using assms
  by (simp add: emitEvent_def passes_filter_def final_event_def routing_collection_def
      transformed_def Let_def split_beta split: option.splits completion.splits)

lemma emitEvent_authorized:
  assumes "passes_filter opts event" and "authorize opts = Some auth"
    and "property_get auth (routing_collection opts event) = Some h"
  shows "emitEvent opts others event m =
     (case authorized_loop h (final_event opts event) others
             (getSocketsInRoom m (''collection:'' @ routing_collection opts event)) m of
        Throws e m1 \<Rightarrow> Throws e m1
      | Normal m1 \<Rightarrow>
          Normal (feed_and_relay (final_event opts event)
            (''collection:'' @ routing_collection opts event) m1))"
  using assms
  by (simp add: emitEvent_def passes_filter_def final_event_def routing_collection_def
      transformed_def Let_def split_beta split: option.splits completion.splits)

lemma emitEvent_filtered:
  "\<not> passes_filter opts event \<Longrightarrow> emitEvent opts others event m = Normal m"
  by (simp add: emitEvent_def passes_filter_def split: option.splits)

text \<open>The authorized loop when no other task runs during its suspensions.\<close>

lemma authorized_frames_sent [simp]:
  "authorized_frames h e (m\<lparr>sent := x\<rparr>) ids = authorized_frames h e m ids"
  by (simp add: authorized_frames_def cong: option.case_cong)

lemma authorized_frames_Cons:
  "authorized_frames h e m (i # ids) = authorized_frames h e m [i] @ authorized_frames h e m ids"
  by (simp add: authorized_frames_def)

lemma fulfils_for_cong:
  "sockets m' = sockets m \<Longrightarrow> udata m' = udata m \<Longrightarrow>
     fulfils_for h e m' ids = fulfils_for h e m ids"
  by (simp add: fulfils_for_def)

lemma fulfils_for_Cons:
  "fulfils_for h e m (i # ids) \<Longrightarrow> fulfils_for h e m ids"
  by (auto simp: fulfils_for_def)

lemma authorized_loop_quiet:
  assumes "\<forall>i \<in> set ids. Map_get (sockets m) i \<noteq> None" and "fulfils_for h e m ids"
  shows "authorized_loop h e [] ids m = Normal (m\<lparr>sent := sent m @ authorized_frames h e m ids\<rparr>)"
  using assms
proof (induction ids arbitrary: m)
  case Nil
  then show ?case by (simp add: authorized_frames_def)
next
  case (Cons i ids)
  from Cons.prems(1) obtain w where w: "Map_get (sockets m) i = Some w" by auto
  from Cons.prems(1) have rest: "\<forall>j \<in> set ids. Map_get (sockets m) j \<noteq> None" by simp
  have ful: "fulfils_for h e m ids" by (rule fulfils_for_Cons [OF Cons.prems(2)])
  show ?case
  proof (cases "ud_user (udata m w)")
    case None
    then have "authorized_frames h e m [i] = []"
      by (simp add: authorized_frames_def w)
    with None w Cons.IH [OF rest ful] show ?thesis
      by (simp add: authorized_frames_Cons [of h e m i ids])
  next
    case (Some u)
    from Cons.prems(2) w Some obtain b where b: "h u e = Fulfils b"
      unfolding fulfils_for_def by auto
    let ?m1 = "sendToSocket w ''payload:event'' (DEvent e) m"
    show ?thesis
    proof (cases b)
      case False
      with b have "authorized_frames h e m [i] = []"
        by (simp add: authorized_frames_def w Some)
      with False b Some w Cons.IH [OF rest ful] show ?thesis
        by (simp add: authorized_frames_Cons [of h e m i ids] meanwhile_def)
    next
      case True
      have one: "authorized_frames h e m [i] =
          (if serialises (DEvent e) then [(w, ''payload:event'', DEvent e)] else [])"
        using b True by (simp add: authorized_frames_def w Some)
      have m1: "?m1 = m\<lparr>sent := sent m @ authorized_frames h e m [i]\<rparr>"
        by (simp add: sendToSocket_def one)
      have rest1: "\<forall>j \<in> set ids. Map_get (sockets ?m1) j \<noteq> None"
        using rest by simp
      have ful1: "fulfils_for h e ?m1 ids"
        using ful by (simp add: fulfils_for_cong [of ?m1 m])
      have "authorized_loop h e [] (i # ids) m = authorized_loop h e [] ids ?m1"
        using w Some b True by (simp add: meanwhile_def)
      also have "\<dots> = Normal (?m1\<lparr>sent := sent ?m1 @ authorized_frames h e ?m1 ids\<rparr>)"
        by (rule Cons.IH [OF rest1 ful1])
      also have "?m1\<lparr>sent := sent ?m1 @ authorized_frames h e ?m1 ids\<rparr> =
          m\<lparr>sent := sent m @ authorized_frames h e m (i # ids)\<rparr>"
        unfolding m1 by (simp add: authorized_frames_Cons [of h e m i ids])
      finally show ?thesis .
    qed
  qed
qed

text \<open>The loop among other tasks.\<close>

lemma meanwhile_tl_subset: "set (tl others) \<subseteq> set others"
  by (cases others) auto

lemma open_no_unknown_tl: "open_no_unknown others \<Longrightarrow> open_no_unknown (tl others)"
  using meanwhile_tl_subset [of others] by (auto simp: open_no_unknown_def)

lemma open_no_unknown_meanwhile:
  "open_no_unknown others \<Longrightarrow> Map_get (sockets m) i = None \<Longrightarrow>
     Map_get (sockets (meanwhile others m)) i = None"
  by (cases others) (simp_all add: open_no_unknown_def meanwhile_def)

lemma leave_sockets_tl: "leave_sockets others \<Longrightarrow> leave_sockets (tl others)"
  using meanwhile_tl_subset [of others] by (auto simp: leave_sockets_def)

lemma leave_sockets_meanwhile:
  "leave_sockets others \<Longrightarrow>
     sockets (meanwhile others m) = sockets m \<and> udata (meanwhile others m) = udata m"
  by (cases others) (simp_all add: leave_sockets_def meanwhile_def)

lemma authorized_loop_unknown_throws:
  assumes "i \<in> set ids" and "Map_get (sockets m) i = None" and "open_no_unknown others"
  shows "\<exists>err m'. authorized_loop h e others ids m = Throws err m' \<and>
           ((\<forall>u. \<exists>b. h u e = Fulfils b) \<longrightarrow> err = TypeError)"
  using assms
proof (induction ids arbitrary: m others)
  case Nil
  then show ?case by simp
next
  case (Cons j ids)
  show ?case
  proof (cases "Map_get (sockets m) j")
    case None
    then show ?thesis by simp
  next
    case (Some w)
    with Cons.prems(1,2) have i: "i \<in> set ids" by auto
    note tl = open_no_unknown_tl [OF Cons.prems(3)]
    have mw: "Map_get (sockets (meanwhile others m)) i = None"
      by (rule open_no_unknown_meanwhile [OF Cons.prems(3) Cons.prems(2)])
    show ?thesis
    proof (cases "ud_user (udata m w)")
      case None
      with Some Cons.IH [OF i Cons.prems(2,3)] show ?thesis by simp
    next
      case u: (Some u)
      show ?thesis
      proof (cases "h u e")
        case (Fulfils b)
        have a: "\<exists>err m'. authorized_loop h e (tl others) ids (meanwhile others m) = Throws err m' \<and>
           ((\<forall>u. \<exists>b. h u e = Fulfils b) \<longrightarrow> err = TypeError)"
          by (rule Cons.IH [OF i mw tl])
        have "Map_get (sockets (sendToSocket w ''payload:event'' (DEvent e) (meanwhile others m))) i
            = None"
          using mw by simp
        from Cons.IH [OF i this tl]
        have b: "\<exists>err m'. authorized_loop h e (tl others) ids
              (sendToSocket w ''payload:event'' (DEvent e) (meanwhile others m)) = Throws err m' \<and>
           ((\<forall>u. \<exists>b. h u e = Fulfils b) \<longrightarrow> err = TypeError)" .
        show ?thesis
        proof (cases b)
          case True
          with b Some u Fulfils show ?thesis by simp
        next
          case False
          with a Some u Fulfils show ?thesis by simp
        qed
      next
        case RejectsLater
        then have "\<not> (\<forall>u. \<exists>b. h u e = Fulfils b)"
          by (intro notI) (drule spec [of _ u], simp)
        with Some u RejectsLater show ?thesis by simp
      next
        case RaisesNow
        then have "\<not> (\<forall>u. \<exists>b. h u e = Fulfils b)"
          by (intro notI) (drule spec [of _ u], simp)
        with Some u RaisesNow show ?thesis by simp
      qed
    qed
  qed
qed

lemma authorized_loop_returns:
  assumes "\<forall>i \<in> set ids. Map_get (sockets m) i \<noteq> None" and "leave_sockets others"
    and "fulfils_for h e m ids"
  shows "\<exists>m'. authorized_loop h e others ids m = Normal m'"
  using assms
proof (induction ids arbitrary: m others)
  case Nil
  then show ?case by simp
next
  case (Cons j ids)
  from Cons.prems(1) obtain w where w: "Map_get (sockets m) j = Some w" by auto
  from Cons.prems(1) have rest: "\<forall>i \<in> set ids. Map_get (sockets m) i \<noteq> None" by simp
  have ful: "fulfils_for h e m ids" by (rule fulfils_for_Cons [OF Cons.prems(3)])
  note tl = leave_sockets_tl [OF Cons.prems(2)]
  note mw = leave_sockets_meanwhile [OF Cons.prems(2), of m]
  show ?case
  proof (cases "ud_user (udata m w)")
    case None
    with w Cons.IH [OF rest Cons.prems(2) ful] show ?thesis by simp
  next
    case (Some u)
    from Cons.prems(3) w Some obtain b where b: "h u e = Fulfils b"
      unfolding fulfils_for_def by auto
    have rest1: "\<forall>i \<in> set ids. Map_get (sockets (meanwhile others m)) i \<noteq> None"
      using rest mw by simp
    have ful1: "fulfils_for h e (meanwhile others m) ids"
      using ful mw by (simp add: fulfils_for_cong [of "meanwhile others m" m])
    let ?m2 = "sendToSocket w ''payload:event'' (DEvent e) (meanwhile others m)"
    have rest2: "\<forall>i \<in> set ids. Map_get (sockets ?m2) i \<noteq> None"
      using rest1 by simp
    have ful2: "fulfils_for h e ?m2 ids"
      using ful1 by (simp add: fulfils_for_cong [of ?m2 "meanwhile others m"])
    from Cons.IH [OF rest1 tl ful1] Cons.IH [OF rest2 tl ful2] w Some b
    show ?thesis by (cases b) simp_all
  qed
qed

lemma authorized_loop_preserves:
  assumes "\<forall>f \<in> set others. \<forall>m. P m \<longrightarrow> P (f m)"
    and "\<And>w l d m. P (sendToSocket w l d m) = P m" and "P m"
  shows "P (state_of (authorized_loop h e others ids m))"
  using assms(1,3)
proof (induction ids arbitrary: m others)
  case Nil
  then show ?case by simp
next
  case (Cons j ids)
  have mw: "P (meanwhile others m)"
    using Cons.prems by (cases others) (simp_all add: meanwhile_def)
  have tl: "\<forall>f \<in> set (tl others). \<forall>m. P m \<longrightarrow> P (f m)"
    using Cons.prems(1) meanwhile_tl_subset [of others] by blast
  have a: "P (state_of (authorized_loop h e (tl others) ids (meanwhile others m)))"
    by (rule Cons.IH [OF tl mw])
  have b: "P (state_of (authorized_loop h e (tl others) ids
              (sendToSocket w ''payload:event'' (DEvent e) (meanwhile others m))))" for w
    by (rule Cons.IH [OF tl]) (simp add: assms(2) mw)
  have c: "P (state_of (authorized_loop h e others ids m))"
    by (rule Cons.IH [OF Cons.prems])
  show ?case
    using a b c mw Cons.prems(2)
    by (simp split: option.splits verdict.splits)
qed

lemma all_feed_frames_labels:
  "(w, l, d) \<in> set (all_feed_frames table e) \<Longrightarrow> l = ''payload:event:all''"
  by (auto simp: all_feed_frames_def)

lemma example_lookups:
  "getSocketsInRoom relay_instance ''collection:posts'' = [''c1'']"
  "getSocketsInRoom (two_in_room r) r = [''c1'', ''c2'']"
  "sockets relay_instance = [(''c1'', Suc 0)]" "sent relay_instance = []"
  "published relay_instance = []" "pubClient relay_instance"
  "sockets (two_in_room r) = [(''c1'', Suc 0), (''c2'', 2)]" "sent (two_in_room r) = []"
  "published (two_in_room r) = []" "\<not> pubClient (two_in_room r)"
  "udata relay_instance (Suc 0) =
     \<lparr>ud_user = Some alice, ud_id = ''c1'', ud_rooms = [''collection:posts'']\<rparr>"
  "udata (two_in_room r) (Suc 0) = \<lparr>ud_user = Some alice, ud_id = ''c1'', ud_rooms = [r]\<rparr>"
  "udata (two_in_room r) 2 = \<lparr>ud_user = Some bob, ud_id = ''c2'', ud_rooms = [r]\<rparr>"
  by (simp_all add: getSocketsInRoom_def relay_instance_def two_in_room_def)

text \<open>
  Claim C5, amended. Let the event pass the filter, let authorization be configured, and
  let the lookup of the predicate under the routing collection find nothing: the
  collection is no key of \<open>authorize\<close> and no member name of \<open>Object.prototype\<close>. Then
  \<open>emitEvent\<close> returns, whatever other tasks do meanwhile; the frames it sends are those
  of the global feed, one \<open>payload:event:all\<close> frame with the final event for each entry
  of the connection table if the event serialises and none otherwise; no frame labelled
  \<open>payload:event\<close> is among them; and an instance connected to Redis publishes one
  \<open>event\<close> envelope for the room. The connection table, the rooms and the user data are
  as before.
\<close>

theorem c5_default_deny:
  assumes "passes_filter opts event" and "authorize opts = Some auth"
    and "property_get auth (routing_collection opts event) = None"
    and "distinct (map fst (sockets m))"
  shows "\<exists>m' fs. emitEvent opts others event m = Normal m' \<and>
           sent m' = sent m @ fs \<and>
           fs = all_feed_frames (sockets m) (final_event opts event) \<and>
           (\<forall>w d. (w, ''payload:event'', d) \<notin> set fs) \<and>
           published m' = published m @
             relayed_out m (DEvent (final_event opts event))
               [relay_envelope ''event'' (''collection:'' @ routing_collection opts event)
                  ''payload:event'' (DEvent (final_event opts event))] \<and>
           sockets m' = sockets m \<and> rooms m' = rooms m \<and> udata m' = udata m"
proof -
  let ?fe = "final_event opts event"
  let ?room = "''collection:'' @ routing_collection opts event"
  let ?m' = "feed_and_relay ?fe ?room m"
  let ?fs = "all_feed_frames (sockets m) ?fe"
  have 1: "emitEvent opts others event m = Normal ?m'"
    by (rule emitEvent_default_deny [OF assms(1,2,3)])
  have 2: "sent ?m' = sent m @ ?fs"
    unfolding feed_and_relay_sent all_feed_frames_eq [OF assms(4)] ..
  have 3: "\<forall>w d. (w, ''payload:event'', d) \<notin> set ?fs"
  proof (intro allI notI)
    fix w d assume "(w, ''payload:event'', d) \<in> set ?fs"
    from all_feed_frames_labels [OF this] show False by simp
  qed
  have 4: "published ?m' = published m @
      relayed_out m (DEvent ?fe) [relay_envelope ''event'' ?room ''payload:event'' (DEvent ?fe)]"
    by (rule feed_and_relay_published)
  have 5: "sockets ?m' = sockets m \<and> rooms ?m' = rooms m \<and> udata ?m' = udata m"
    by simp
  show ?thesis
    by (rule exI [of _ ?m'], rule exI [of _ ?fs]) (intro conjI 1 2 refl 3 4 5)
qed

theorem c5_default_deny_witness:
  "passes_filter projects_only post7 \<and>
   authorize projects_only = Some [''projects'' \<mapsto> (\<lambda>u e. Fulfils True)] \<and>
   property_get [''projects'' \<mapsto> (\<lambda>u e. Fulfils True)]
     (routing_collection projects_only post7) = None \<and>
   distinct (map fst (sockets relay_instance)) \<and>
   getSocketsInRoom relay_instance ''collection:posts'' = [''c1''] \<and>
   emitEvent projects_only [ws_close 1] post7 relay_instance =
     Normal (state_of (emitEvent projects_only [ws_close 1] post7 relay_instance)) \<and>
   sent (state_of (emitEvent projects_only [ws_close 1] post7 relay_instance)) =
     [(1, ''payload:event:all'', DEvent post7)] \<and>
   published (state_of (emitEvent projects_only [ws_close 1] post7 relay_instance)) =
     [relay_envelope ''event'' ''collection:posts'' ''payload:event'' (DEvent post7)]"
proof -
  let ?auth = "[''projects'' \<mapsto> (\<lambda>(u::user) (e::realtime_event). Fulfils True)]"
  have t: "transformed projects_only post7 = (post7, post7)"
    by (simp add: transformed_def projects_only_def)
  have fe: "final_event projects_only post7 = post7"
    by (simp add: final_event_def t)
  have rc: "routing_collection projects_only post7 = ''posts''"
    unfolding routing_collection_def t by (simp add: post7_def)
  have 1: "passes_filter projects_only post7"
    by (simp add: passes_filter_def projects_only_def)
  have 2: "authorize projects_only = Some ?auth"
    by (simp add: projects_only_def)
  have 3: "property_get ?auth (routing_collection projects_only post7) = None"
    unfolding rc by (simp add: property_get_def Object_prototype_def)
  have 4: "distinct (map fst (sockets relay_instance))"
    by (simp add: example_lookups)
  from c5_default_deny [OF 1 2 3 4, of "[ws_close 1]"]
  obtain m' fs where e: "emitEvent projects_only [ws_close 1] post7 relay_instance = Normal m'"
    and s: "sent m' = sent relay_instance @ fs"
    and f: "fs = all_feed_frames (sockets relay_instance) (final_event projects_only post7)"
    and p: "published m' = published relay_instance @
             relayed_out relay_instance (DEvent (final_event projects_only post7))
               [relay_envelope ''event'' (''collection:'' @ routing_collection projects_only post7)
                  ''payload:event'' (DEvent (final_event projects_only post7))]"
    by blast
  have 5: "emitEvent projects_only [ws_close 1] post7 relay_instance =
      Normal (state_of (emitEvent projects_only [ws_close 1] post7 relay_instance))"
    unfolding e by simp
  have 6: "sent (state_of (emitEvent projects_only [ws_close 1] post7 relay_instance)) =
      [(1, ''payload:event:all'', DEvent post7)]"
    unfolding e state_of_simps s f fe
    by (simp add: all_feed_frames_def example_lookups)
  have 7: "published (state_of (emitEvent projects_only [ws_close 1] post7 relay_instance)) =
      [relay_envelope ''event'' ''collection:posts'' ''payload:event'' (DEvent post7)]"
    unfolding e state_of_simps p fe rc
    by (simp add: relayed_out_def example_lookups)
  show ?thesis
    by (intro conjI 1 2 3 4 example_lookups(1) 5 6 7)
qed

text \<open>
  Claim C5 as stated fails. Authorization is configured with a predicate for \<open>projects\<close>
  only. An event of a collection named \<open>constructor\<close>, for which no predicate is
  registered, is delivered as \<open>payload:event\<close> to both members of the room, because the
  lookup finds \<open>Object.prototype.constructor\<close>. An event of \<open>posts\<close> whose document does
  not serialise reaches nobody, not even as \<open>payload:event:all\<close>. And the envelope that
  an instance connected to Redis publishes for an event of \<open>posts\<close> makes the instance
  that receives it deliver \<open>payload:event\<close> to the member of \<open>collection:posts\<close>.
\<close>

theorem c5_counterexample:
  "authorize projects_only \<noteq> None \<and>
   \<not> registered_for projects_only ''constructor'' \<and>
   \<not> registered_for projects_only ''posts'' \<and>
   passes_filter projects_only constructor7 \<and> passes_filter projects_only cyclic7 \<and>
   passes_filter projects_only post7 \<and>
   sent (state_of (emitEvent projects_only [] constructor7
      (two_in_room ''collection:constructor''))) =
     [(1, ''payload:event'', DEvent constructor7), (2, ''payload:event'', DEvent constructor7),
      (1, ''payload:event:all'', DEvent constructor7),
      (2, ''payload:event:all'', DEvent constructor7)] \<and>
   sockets relay_instance = [(''c1'', 1)] \<and>
   sent (state_of (emitEvent projects_only [] cyclic7 relay_instance)) = [] \<and>
   published (state_of (emitEvent projects_only [] post7 relay_instance)) =
     [relay_envelope ''event'' ''collection:posts'' ''payload:event'' (DEvent post7)] \<and>
   sent (handleRedisMessage ''uwebsocket:events''
      (Parsed (relay_envelope ''event'' ''collection:posts'' ''payload:event'' (DEvent post7)))
      relay_instance) = [(1, ''payload:event'', DEvent post7)]"
proof -
  let ?auth = "[''projects'' \<mapsto> (\<lambda>(u::user) (e::realtime_event). Fulfils True)]"
  have a: "authorize projects_only = Some ?auth" by (simp add: projects_only_def)
  have 1: "authorize projects_only \<noteq> None" by (simp add: a)
  have 2: "\<not> registered_for projects_only ''constructor''"
    "\<not> registered_for projects_only ''posts''"
    by (simp_all add: registered_for_def a)
  have 3: "passes_filter projects_only constructor7" "passes_filter projects_only cyclic7"
    "passes_filter projects_only post7"
    by (simp_all add: passes_filter_def projects_only_def)
  have t: "transformed projects_only e = (e, e)" for e
    by (simp add: transformed_def projects_only_def)
  have fe: "final_event projects_only e = e" for e
    by (simp add: final_event_def t)
  have rc: "routing_collection projects_only constructor7 = ''constructor''"
    "routing_collection projects_only cyclic7 = ''posts''"
    "routing_collection projects_only post7 = ''posts''"
    unfolding routing_collection_def t
    by (simp_all add: post7_def constructor7_def cyclic7_def)
  have ser: "serialises (DEvent constructor7)" "\<not> serialises (DEvent cyclic7)"
    by (simp_all add: serialises_def post7_def constructor7_def cyclic7_def)
  let ?m = "two_in_room ''collection:constructor''"
  have pc: "property_get ?auth (routing_collection projects_only constructor7) =
      Some (\<lambda>u e. Fulfils True)"
    unfolding rc by (simp add: property_get_def Object_prototype_def)
  have g: "getSocketsInRoom ?m (''collection:'' @ ''constructor'') = [''c1'', ''c2'']"
    using example_lookups(2) [of "''collection:constructor''"] by simp
  have known: "\<forall>i \<in> set [''c1'', ''c2'']. Map_get (sockets ?m) i \<noteq> None"
    by (simp add: example_lookups Map_get_def)
  have ful: "fulfils_for (\<lambda>u e. Fulfils True) constructor7 ?m [''c1'', ''c2'']"
    unfolding fulfils_for_def by (intro ballI allI impI exI) (rule refl)
  have af: "authorized_frames (\<lambda>u e. Fulfils True) constructor7 ?m [''c1'', ''c2''] =
      [(1, ''payload:event'', DEvent constructor7), (2, ''payload:event'', DEvent constructor7)]"
    by (simp add: authorized_frames_def example_lookups Map_get_def ser)
  have "emitEvent projects_only [] constructor7 ?m =
      Normal (feed_and_relay constructor7 (''collection:'' @ ''constructor'')
        (?m\<lparr>sent := sent ?m @ [(1, ''payload:event'', DEvent constructor7),
               (2, ''payload:event'', DEvent constructor7)]\<rparr>))"
    unfolding emitEvent_authorized [OF 3(1) a pc] fe rc g
      authorized_loop_quiet [OF known ful] af by simp
  then have 4: "sent (state_of (emitEvent projects_only [] constructor7 ?m)) =
     [(1, ''payload:event'', DEvent constructor7), (2, ''payload:event'', DEvent constructor7),
      (1, ''payload:event:all'', DEvent constructor7),
      (2, ''payload:event:all'', DEvent constructor7)]"
    by (simp add: feed_and_relay_sent example_lookups room_frames_def is_excluded_def
        Map_get_def ser)
  have pp: "property_get ?auth ''posts'' = None"
    by (simp add: property_get_def Object_prototype_def)
  have "emitEvent projects_only [] cyclic7 relay_instance =
      Normal (feed_and_relay cyclic7 (''collection:'' @ ''posts'') relay_instance)"
    using emitEvent_default_deny [OF 3(2) a, of "[]" relay_instance] pp
    unfolding fe rc by simp
  then have 5: "sent (state_of (emitEvent projects_only [] cyclic7 relay_instance)) = []"
    by (simp add: feed_and_relay_sent example_lookups room_frames_def ser)
  have "emitEvent projects_only [] post7 relay_instance =
      Normal (feed_and_relay post7 (''collection:'' @ ''posts'') relay_instance)"
    using emitEvent_default_deny [OF 3(3) a, of "[]" relay_instance] pp
    unfolding fe rc by simp
  then have 6: "published (state_of (emitEvent projects_only [] post7 relay_instance)) =
     [relay_envelope ''event'' ''collection:posts'' ''payload:event'' (DEvent post7)]"
    by (simp add: feed_and_relay_published relayed_out_def example_lookups)
  have 7: "sent (handleRedisMessage ''uwebsocket:events''
      (Parsed (relay_envelope ''event'' ''collection:posts'' ''payload:event'' (DEvent post7)))
      relay_instance) = [(1, ''payload:event'', DEvent post7)]"
    by (simp add: handleRedisMessage_def relay_envelope_def broadcastToRoom_sent
        example_lookups room_frames_def is_excluded_def Map_get_def)
  have 8: "sockets relay_instance = [(''c1'', 1)]" by (simp add: example_lookups)
  show ?thesis
    by (intro conjI 1 2 3 4 8 5 6 7)
qed

lemma Map_get_Map_delete_None:
  "Map_get t i = None \<Longrightarrow> Map_get (Map_delete k t) i = None"
  by (induction t) (auto simp: Map_get_def Map_delete_def)

text \<open>
  A member that closes while \<open>emitEvent\<close> waits for the predicate is still in the list
  the loop runs over, and is then missing from the connection table: both members of
  \<open>collection:posts\<close> are connected when the call begins, the second closes during the
  first suspension, and the call ends with a \<open>TypeError\<close> after the first member got
  its frame.
\<close>

lemma emitEvent_close_during_await:
  "\<not> has_unknown_member (two_in_room ''collection:posts'') ''collection:posts'' \<and>
   emitEvent posts_for_all [ws_close 2] post7 (two_in_room ''collection:posts'') =
     Throws TypeError
       (sendToSocket 1 ''payload:event'' (DEvent post7)
          (ws_close 2 (two_in_room ''collection:posts'')))"
proof -
  let ?m = "two_in_room ''collection:posts''"
  let ?auth = "[''posts'' \<mapsto> (\<lambda>(u::user) (e::realtime_event). Fulfils True)]"
  have 1: "passes_filter posts_for_all post7"
    by (simp add: passes_filter_def posts_for_all_def)
  have 2: "authorize posts_for_all = Some ?auth"
    by (simp add: posts_for_all_def)
  have t: "transformed posts_for_all post7 = (post7, post7)"
    by (simp add: transformed_def posts_for_all_def)
  have fe: "final_event posts_for_all post7 = post7"
    by (simp add: final_event_def t)
  have rc: "routing_collection posts_for_all post7 = ''posts''"
    unfolding routing_collection_def t by (simp add: post7_def)
  have 3: "property_get ?auth (routing_collection posts_for_all post7) =
      Some (\<lambda>u e. Fulfils True)"
    unfolding rc by (simp add: property_get_def)
  have g: "getSocketsInRoom ?m (''collection:'' @ ''posts'') = [''c1'', ''c2'']"
    using example_lookups(2) [of "''collection:posts''"] by simp
  have a: "\<not> has_unknown_member ?m ''collection:posts''"
    by (simp add: has_unknown_member_def example_lookups Map_get_def)
  have c: "Map_get (sockets (ws_close 2 ?m)) ''c2'' = None"
    by (simp add: ws_close_sockets example_lookups Map_delete_def Map_get_def)
  have c1: "Map_get [(''c1'', Suc 0), (''c2'', 2)] ''c1'' = Some (Suc 0)"
    by (simp add: Map_get_def)
  have "authorized_loop (\<lambda>u e. Fulfils True) post7 [ws_close 2] [''c1'', ''c2''] ?m =
      Throws TypeError (sendToSocket 1 ''payload:event'' (DEvent post7) (ws_close 2 ?m))"
    by (simp add: example_lookups meanwhile_def c c1)
  then have b: "emitEvent posts_for_all [ws_close 2] post7 ?m =
      Throws TypeError (sendToSocket 1 ''payload:event'' (DEvent post7) (ws_close 2 ?m))"
    unfolding emitEvent_authorized [OF 1 2 3] fe rc g by simp
  show ?thesis by (intro conjI a b)
qed

text \<open>
  Claim C10. On the authorized path (the event passes the filter and the lookup under the
  routing collection finds a predicate) \<open>emitEvent\<close> does not return when the target room
  holds an id that is not in the connection table and no other task opens a socket under
  such an id meanwhile: the call ends with an exception, which is the \<open>TypeError\<close> of the
  unguarded read of the user data whenever the predicate's promise is always fulfilled.
  With every member id in the table the call returns, provided that the other tasks leave
  the connection table and the user data alone while it is suspended and the predicate's
  promise is fulfilled for the members. \<open>broadcastToRoom\<close> on the same state always
  returns, and sends to those members only that are in the table.
\<close>

theorem c10_authorized_path_partial:
  assumes "passes_filter opts event" and "authorize opts = Some auth"
    and "property_get auth (routing_collection opts event) = Some h"
  shows "(has_unknown_member m (''collection:'' @ routing_collection opts event) \<and>
          open_no_unknown others \<longrightarrow>
            (\<exists>err m'. emitEvent opts others event m = Throws err m' \<and>
               ((\<forall>u. \<exists>b. h u (final_event opts event) = Fulfils b) \<longrightarrow> err = TypeError))) \<and>
         (\<not> has_unknown_member m (''collection:'' @ routing_collection opts event) \<and>
          leave_sockets others \<and>
          fulfils_for h (final_event opts event) m
            (getSocketsInRoom m (''collection:'' @ routing_collection opts event)) \<longrightarrow>
            (\<exists>m'. emitEvent opts others event m = Normal m')) \<and>
         set (sent (broadcastToRoom (''collection:'' @ routing_collection opts event) d l None m)) =
           set (sent m) \<union>
           {(w, l, d) |i w. serialises d \<and>
               i \<in> set (getSocketsInRoom m (''collection:'' @ routing_collection opts event)) \<and>
               Map_get (sockets m) i = Some w}"
proof (intro conjI impI)
  let ?room = "''collection:'' @ routing_collection opts event"
  let ?fe = "final_event opts event"
  assume "has_unknown_member m ?room \<and> open_no_unknown others"
  then obtain i where i: "i \<in> set (getSocketsInRoom m ?room)" "Map_get (sockets m) i = None"
    and o: "open_no_unknown others"
    unfolding has_unknown_member_def by blast
  from authorized_loop_unknown_throws [OF i o, of h ?fe]
  obtain err m1 where "authorized_loop h ?fe others (getSocketsInRoom m ?room) m = Throws err m1"
    and "(\<forall>u. \<exists>b. h u ?fe = Fulfils b) \<longrightarrow> err = TypeError"
    by blast
  then show "\<exists>err m'. emitEvent opts others event m = Throws err m' \<and>
      ((\<forall>u. \<exists>b. h u ?fe = Fulfils b) \<longrightarrow> err = TypeError)"
    by (simp add: emitEvent_authorized [OF assms])
next
  let ?room = "''collection:'' @ routing_collection opts event"
  let ?fe = "final_event opts event"
  assume a: "\<not> has_unknown_member m ?room \<and> leave_sockets others \<and>
    fulfils_for h ?fe m (getSocketsInRoom m ?room)"
  then have k: "\<forall>i \<in> set (getSocketsInRoom m ?room). Map_get (sockets m) i \<noteq> None"
    by (simp add: has_unknown_member_def)
  from a have l: "leave_sockets others" and f: "fulfils_for h ?fe m (getSocketsInRoom m ?room)"
    by simp_all
  from authorized_loop_returns [OF k l f]
  obtain m1 where "authorized_loop h ?fe others (getSocketsInRoom m ?room) m = Normal m1"
    by blast
  then show "\<exists>m'. emitEvent opts others event m = Normal m'"
    by (simp add: emitEvent_authorized [OF assms])
next
  let ?room = "''collection:'' @ routing_collection opts event"
  show "set (sent (broadcastToRoom ?room d l None m)) =
           set (sent m) \<union>
           {(w, l, d) |i w. serialises d \<and> i \<in> set (getSocketsInRoom m ?room) \<and>
               Map_get (sockets m) i = Some w}"
    unfolding broadcastToRoom_sent set_append set_room_frames
    by (simp add: is_excluded_def)
qed

theorem c10_authorized_path_partial_witness:
  "passes_filter posts_for_all post7 \<and>
   authorize posts_for_all = Some [''posts'' \<mapsto> (\<lambda>u e. Fulfils True)] \<and>
   property_get [''posts'' \<mapsto> (\<lambda>u e. Fulfils True)] (routing_collection posts_for_all post7) =
     Some (\<lambda>u e. Fulfils True) \<and>
   has_unknown_member stale_member_instance ''collection:posts'' \<and>
   open_no_unknown ([ws_close 1] :: nat others) \<and>
   (\<exists>m'. emitEvent posts_for_all [ws_close 1] post7 stale_member_instance =
            Throws TypeError m') \<and>
   \<not> has_unknown_member relay_instance ''collection:posts'' \<and>
   leave_sockets
     ([broadcastToRoom ''collection:posts'' (DUserId (IdNum 1)) ''ping'' None] :: nat others) \<and>
   fulfils_for (\<lambda>u e. Fulfils True) post7 relay_instance
     (getSocketsInRoom relay_instance ''collection:posts'') \<and>
   (\<exists>m'. emitEvent posts_for_all
            [broadcastToRoom ''collection:posts'' (DUserId (IdNum 1)) ''ping'' None] post7
            relay_instance = Normal m') \<and>
   sent (broadcastToRoom ''collection:posts'' (DEvent post7) ''payload:event'' None
          stale_member_instance) = [(1, ''payload:event'', DEvent post7)]"
proof -
  let ?auth = "[''posts'' \<mapsto> (\<lambda>(u::user) (e::realtime_event). Fulfils True)]"
  let ?h = "\<lambda>(u::user) (e::realtime_event). Fulfils True"
  let ?ping = "broadcastToRoom ''collection:posts'' (DUserId (IdNum 1)) ''ping'' None
    :: nat manager \<Rightarrow> nat manager"
  let ?close = "ws_close 1 :: nat manager \<Rightarrow> nat manager"
  have 1: "passes_filter posts_for_all post7"
    by (simp add: passes_filter_def posts_for_all_def)
  have 2: "authorize posts_for_all = Some ?auth"
    by (simp add: posts_for_all_def)
  have t: "transformed posts_for_all post7 = (post7, post7)"
    by (simp add: transformed_def posts_for_all_def)
  have fe: "final_event posts_for_all post7 = post7"
    by (simp add: final_event_def t)
  have rc: "routing_collection posts_for_all post7 = ''posts''"
    unfolding routing_collection_def t by (simp add: post7_def)
  have c: "''collection:'' @ routing_collection posts_for_all post7 = ''collection:posts''"
    unfolding rc by simp
  have 3: "property_get ?auth (routing_collection posts_for_all post7) = Some ?h"
    unfolding rc by (simp add: property_get_def)
  have 4: "has_unknown_member stale_member_instance ''collection:posts''"
    by (simp add: has_unknown_member_def stale_member_instance_def relay_instance_def
        getSocketsInRoom_def joinRoom_rooms Set_add_def Map_get_def)
  have 5: "open_no_unknown [?close]"
    by (simp add: open_no_unknown_def ws_close_sockets Map_get_Map_delete_None)
  have 6: "\<not> has_unknown_member relay_instance ''collection:posts''"
    by (simp add: has_unknown_member_def example_lookups Map_get_def)
  have 7: "leave_sockets [?ping]"
    by (simp add: leave_sockets_def)
  have 8: "fulfils_for ?h post7 relay_instance
      (getSocketsInRoom relay_instance ''collection:posts'')"
    unfolding fulfils_for_def by (intro ballI allI impI exI) (rule refl)
  have 9: "sent (broadcastToRoom ''collection:posts'' (DEvent post7) ''payload:event'' None
          stale_member_instance) = [(1, ''payload:event'', DEvent post7)]"
    by (simp add: broadcastToRoom_sent room_frames_def stale_member_instance_def
        relay_instance_def getSocketsInRoom_def joinRoom_rooms Set_add_def Map_get_def
        is_excluded_def)
  have all: "\<forall>u. \<exists>b. ?h u (final_event posts_for_all post7) = Fulfils b"
    by (intro allI exI) (rule refl)
  note thm1 = c10_authorized_path_partial [OF 1 2 3, of stale_member_instance "[?close]",
      THEN conjunct1, unfolded c]
  from thm1 4 5 have "\<exists>err m'. emitEvent posts_for_all [?close] post7 stale_member_instance =
      Throws err m' \<and> ((\<forall>u. \<exists>b. ?h u (final_event posts_for_all post7) = Fulfils b) \<longrightarrow>
        err = TypeError)"
    by (intro mp [OF thm1] conjI)
  then obtain err m' where
    "emitEvent posts_for_all [?close] post7 stale_member_instance = Throws err m'"
    and "(\<forall>u. \<exists>b. ?h u (final_event posts_for_all post7) = Fulfils b) \<longrightarrow> err = TypeError"
    by (elim exE conjE)
  with all have a: "\<exists>m'. emitEvent posts_for_all [?close] post7 stale_member_instance =
      Throws TypeError m'"
    by (intro exI [of _ m']) simp
  note thm2 = c10_authorized_path_partial [OF 1 2 3, of relay_instance "[?ping]",
      THEN conjunct2, THEN conjunct1, unfolded c fe]
  have b: "\<exists>m'. emitEvent posts_for_all [?ping] post7 relay_instance = Normal m'"
    by (intro mp [OF thm2] conjI 6 7 8)
  show ?thesis
    by (intro conjI 1 2 3 4 5 a 6 7 8 b 9)
qed

lemma relayed_out_cong:
  "pubClient m' = pubClient m \<Longrightarrow> relayed_out m' d es = relayed_out m d es"
  by (simp add: relayed_out_def)

lemma relayed_out_append:
  "relayed_out m d xs @ relayed_out m d ys = relayed_out m d (xs @ ys)"
  by (simp add: relayed_out_def)

lemma emitEvent_unauthorized_outputs:
  assumes "passes_filter opts event" and "authorize opts = None"
  shows "\<exists>m'. emitEvent opts others event m = Normal m' \<and>
     sent m' = sent m @
       room_frames (sockets m) (DEvent (final_event opts event)) ''payload:event'' None
         (getSocketsInRoom m (''collection:'' @ routing_collection opts event)) @
       room_frames (sockets m) (DEvent (final_event opts event)) ''payload:event:all'' None
         (map fst (sockets m)) \<and>
     published m' = published m @
       relayed_out m (DEvent (final_event opts event))
         [relay_envelope ''room-broadcast'' (''collection:'' @ routing_collection opts event)
            ''payload:event'' (DEvent (final_event opts event)),
          relay_envelope ''event'' (''collection:'' @ routing_collection opts event)
            ''payload:event'' (DEvent (final_event opts event))]"
proof -
  let ?fe = "final_event opts event"
  let ?room = "''collection:'' @ routing_collection opts event"
  let ?m1 = "broadcastToRoom ?room (DEvent ?fe) ''payload:event'' None m"
  let ?m' = "feed_and_relay ?fe ?room ?m1"
  have 1: "emitEvent opts others event m = Normal ?m'"
    by (rule emitEvent_unauthorized [OF assms])
  have 2: "sent ?m' = sent m @
       room_frames (sockets m) (DEvent ?fe) ''payload:event'' None (getSocketsInRoom m ?room) @
       room_frames (sockets m) (DEvent ?fe) ''payload:event:all'' None (map fst (sockets m))"
    unfolding feed_and_relay_sent broadcastToRoom_sent broadcastToRoom_simps by simp
  have r: "relayed_out ?m1 (DEvent ?fe) es = relayed_out m (DEvent ?fe) es" for es
    by (rule relayed_out_cong) simp
  have 3: "published ?m' = published m @
       relayed_out m (DEvent ?fe)
         [relay_envelope ''room-broadcast'' ?room ''payload:event'' (DEvent ?fe),
          relay_envelope ''event'' ?room ''payload:event'' (DEvent ?fe)]"
    unfolding feed_and_relay_published broadcastToRoom_published r
    by (simp add: relayed_out_def)
  show ?thesis by (rule exI [of _ ?m']) (intro conjI 1 2 3)
qed

lemma emitEvent_default_deny_outputs:
  assumes "passes_filter opts event" and "authorize opts = Some auth"
    and "property_get auth (routing_collection opts event) = None"
  shows "\<exists>m'. emitEvent opts others event m = Normal m' \<and>
     sent m' = sent m @
       room_frames (sockets m) (DEvent (final_event opts event)) ''payload:event:all'' None
         (map fst (sockets m)) \<and>
     published m' = published m @
       relayed_out m (DEvent (final_event opts event))
         [relay_envelope ''event'' (''collection:'' @ routing_collection opts event)
            ''payload:event'' (DEvent (final_event opts event))]"
proof -
  let ?fe = "final_event opts event"
  let ?room = "''collection:'' @ routing_collection opts event"
  let ?m' = "feed_and_relay ?fe ?room m"
  have 1: "emitEvent opts others event m = Normal ?m'"
    by (rule emitEvent_default_deny [OF assms])
  show ?thesis
    by (rule exI [of _ ?m']) (intro conjI 1 feed_and_relay_sent feed_and_relay_published)
qed

lemma emitEvent_authorized_quiet_outputs:
  assumes "passes_filter opts event" and "authorize opts = Some auth"
    and "property_get auth (routing_collection opts event) = Some h"
    and "\<not> has_unknown_member m (''collection:'' @ routing_collection opts event)"
    and "fulfils_for h (final_event opts event) m
           (getSocketsInRoom m (''collection:'' @ routing_collection opts event))"
  shows "\<exists>m'. emitEvent opts [] event m = Normal m' \<and>
     sent m' = sent m @
       authorized_frames h (final_event opts event) m
         (getSocketsInRoom m (''collection:'' @ routing_collection opts event)) @
       room_frames (sockets m) (DEvent (final_event opts event)) ''payload:event:all'' None
         (map fst (sockets m)) \<and>
     published m' = published m @
       relayed_out m (DEvent (final_event opts event))
         [relay_envelope ''event'' (''collection:'' @ routing_collection opts event)
            ''payload:event'' (DEvent (final_event opts event))]"
proof -
  let ?fe = "final_event opts event"
  let ?room = "''collection:'' @ routing_collection opts event"
  let ?ids = "getSocketsInRoom m ?room"
  let ?m1 = "m\<lparr>sent := sent m @ authorized_frames h ?fe m ?ids\<rparr>"
  let ?m' = "feed_and_relay ?fe ?room ?m1"
  from assms(4) have k: "\<forall>i \<in> set ?ids. Map_get (sockets m) i \<noteq> None"
    by (simp add: has_unknown_member_def)
  have 1: "emitEvent opts [] event m = Normal ?m'"
    unfolding emitEvent_authorized [OF assms(1,2,3)] authorized_loop_quiet [OF k assms(5)]
    by simp
  have 2: "sent ?m' = sent m @ authorized_frames h ?fe m ?ids @
       room_frames (sockets m) (DEvent ?fe) ''payload:event:all'' None (map fst (sockets m))"
    unfolding feed_and_relay_sent by simp
  have 3: "published ?m' = published m @
       relayed_out m (DEvent ?fe) [relay_envelope ''event'' ?room ''payload:event'' (DEvent ?fe)]"
    unfolding feed_and_relay_published by (simp add: relayed_out_def)
  show ?thesis by (rule exI [of _ ?m']) (intro conjI 1 2 3)
qed

text \<open>
  Claim C2, amended. Let a transform be configured; called on the event it returns \<open>fe\<close>
  and leaves the event object it was given as \<open>ev'\<close>; the event passes the filter. Then
  the room is \<open>collection:\<close> followed by the collection of \<open>ev'\<close>, the predicate is
  the one found under the collection of \<open>ev'\<close>, and everything that is delivered or
  relayed is \<open>fe\<close>:

  \<^item> without authorization, the members of that room who are in the connection table get
    \<open>fe\<close> as \<open>payload:event\<close>, then every connection gets it as \<open>payload:event:all\<close>,
    and the two envelopes published carry \<open>fe\<close> and name that room;
  \<^item> with authorization and no predicate found, only the global feed and the \<open>event\<close>
    envelope remain;
  \<^item> with a predicate \<open>h\<close> found, the call is the loop over the members of that room with
    \<open>h\<close> applied to \<open>fe\<close>, followed by the feed and the relay of \<open>fe\<close>; when nothing
    else runs meanwhile, every member is in the table and the promises are fulfilled, the
    room-scoped frames go to the members whose user \<open>h\<close> accepts for \<open>fe\<close>.
\<close>

theorem c2_transformed_payload:
  assumes "transformEvent opts = Some t" and "t event = (fe, ev')"
    and "passes_filter opts event"
  shows "(authorize opts = None \<longrightarrow>
            (\<exists>m'. emitEvent opts others event m = Normal m' \<and>
               sent m' = sent m @
                 room_frames (sockets m) (DEvent fe) ''payload:event'' None
                   (getSocketsInRoom m (''collection:'' @ ev_collection ev')) @
                 room_frames (sockets m) (DEvent fe) ''payload:event:all'' None
                   (map fst (sockets m)) \<and>
               published m' = published m @
                 relayed_out m (DEvent fe)
                   [relay_envelope ''room-broadcast'' (''collection:'' @ ev_collection ev')
                      ''payload:event'' (DEvent fe),
                    relay_envelope ''event'' (''collection:'' @ ev_collection ev')
                      ''payload:event'' (DEvent fe)])) \<and>
         (\<forall>auth. authorize opts = Some auth \<and> property_get auth (ev_collection ev') = None \<longrightarrow>
            (\<exists>m'. emitEvent opts others event m = Normal m' \<and>
               sent m' = sent m @
                 room_frames (sockets m) (DEvent fe) ''payload:event:all'' None
                   (map fst (sockets m)) \<and>
               published m' = published m @
                 relayed_out m (DEvent fe)
                   [relay_envelope ''event'' (''collection:'' @ ev_collection ev')
                      ''payload:event'' (DEvent fe)])) \<and>
         (\<forall>auth h. authorize opts = Some auth \<and>
              property_get auth (ev_collection ev') = Some h \<longrightarrow>
            emitEvent opts others event m =
              (case authorized_loop h fe others
                      (getSocketsInRoom m (''collection:'' @ ev_collection ev')) m of
                 Throws e m1 \<Rightarrow> Throws e m1
               | Normal m1 \<Rightarrow>
                   Normal (feed_and_relay fe (''collection:'' @ ev_collection ev') m1)) \<and>
            (\<not> has_unknown_member m (''collection:'' @ ev_collection ev') \<and>
             fulfils_for h fe m (getSocketsInRoom m (''collection:'' @ ev_collection ev')) \<longrightarrow>
               (\<exists>m'. emitEvent opts [] event m = Normal m' \<and>
                  sent m' = sent m @
                    authorized_frames h fe m
                      (getSocketsInRoom m (''collection:'' @ ev_collection ev')) @
                    room_frames (sockets m) (DEvent fe) ''payload:event:all'' None
                      (map fst (sockets m)) \<and>
                  published m' = published m @
                    relayed_out m (DEvent fe)
                      [relay_envelope ''event'' (''collection:'' @ ev_collection ev')
                         ''payload:event'' (DEvent fe)])))"
proof -
  have t: "transformed opts event = (fe, ev')"
    by (simp add: transformed_def assms(1,2))
  have fe: "final_event opts event = fe"
    by (simp add: final_event_def t)
  have rc: "routing_collection opts event = ev_collection ev'"
    by (simp add: routing_collection_def t)
  show ?thesis
  proof (intro conjI allI impI)
    assume "authorize opts = None"
    from emitEvent_unauthorized_outputs [OF assms(3) this, of others m]
    show "\<exists>m'. emitEvent opts others event m = Normal m' \<and>
               sent m' = sent m @
                 room_frames (sockets m) (DEvent fe) ''payload:event'' None
                   (getSocketsInRoom m (''collection:'' @ ev_collection ev')) @
                 room_frames (sockets m) (DEvent fe) ''payload:event:all'' None
                   (map fst (sockets m)) \<and>
               published m' = published m @
                 relayed_out m (DEvent fe)
                   [relay_envelope ''room-broadcast'' (''collection:'' @ ev_collection ev')
                      ''payload:event'' (DEvent fe),
                    relay_envelope ''event'' (''collection:'' @ ev_collection ev')
                      ''payload:event'' (DEvent fe)]"
      unfolding fe rc .
  next
    fix auth
    assume "authorize opts = Some auth \<and> property_get auth (ev_collection ev') = None"
    then have a: "authorize opts = Some auth"
      and p: "property_get auth (routing_collection opts event) = None"
      unfolding rc by simp_all
    from emitEvent_default_deny_outputs [OF assms(3) a p, of others m]
    show "\<exists>m'. emitEvent opts others event m = Normal m' \<and>
               sent m' = sent m @
                 room_frames (sockets m) (DEvent fe) ''payload:event:all'' None
                   (map fst (sockets m)) \<and>
               published m' = published m @
                 relayed_out m (DEvent fe)
                   [relay_envelope ''event'' (''collection:'' @ ev_collection ev')
                      ''payload:event'' (DEvent fe)]"
      unfolding fe rc .
  next
    fix auth h
    assume "authorize opts = Some auth \<and> property_get auth (ev_collection ev') = Some h"
    then have a: "authorize opts = Some auth"
      and p: "property_get auth (routing_collection opts event) = Some h"
      unfolding rc by simp_all
    from emitEvent_authorized [OF assms(3) a p, of others m]
    show "emitEvent opts others event m =
              (case authorized_loop h fe others
                      (getSocketsInRoom m (''collection:'' @ ev_collection ev')) m of
                 Throws e m1 \<Rightarrow> Throws e m1
               | Normal m1 \<Rightarrow>
                   Normal (feed_and_relay fe (''collection:'' @ ev_collection ev') m1))"
      unfolding fe rc .
  next
    fix auth h
    assume "authorize opts = Some auth \<and> property_get auth (ev_collection ev') = Some h"
    then have a: "authorize opts = Some auth"
      and p: "property_get auth (routing_collection opts event) = Some h"
      unfolding rc by simp_all
    assume "\<not> has_unknown_member m (''collection:'' @ ev_collection ev') \<and>
      fulfils_for h fe m (getSocketsInRoom m (''collection:'' @ ev_collection ev'))"
    then have k: "\<not> has_unknown_member m (''collection:'' @ routing_collection opts event)"
      and f: "fulfils_for h (final_event opts event) m
        (getSocketsInRoom m (''collection:'' @ routing_collection opts event))"
      unfolding fe rc by simp_all
    from emitEvent_authorized_quiet_outputs [OF assms(3) a p k f]
    show "\<exists>m'. emitEvent opts [] event m = Normal m' \<and>
                  sent m' = sent m @
                    authorized_frames h fe m
                      (getSocketsInRoom m (''collection:'' @ ev_collection ev')) @
                    room_frames (sockets m) (DEvent fe) ''payload:event:all'' None
                      (map fst (sockets m)) \<and>
                  published m' = published m @
                    relayed_out m (DEvent fe)
                      [relay_envelope ''event'' (''collection:'' @ ev_collection ev')
                         ''payload:event'' (DEvent fe)]"
      unfolding fe rc .
  qed
qed

theorem c2_transformed_payload_witness:
  "transformEvent editors_rename_opts = Some (\<lambda>e. (to_pages e, e)) \<and>
   passes_filter editors_rename_opts post7 \<and>
   ev_collection (to_pages post7) = ''pages'' \<and> ev_collection post7 = ''posts'' \<and>
   getSocketsInRoom (two_in_room ''collection:posts'') ''collection:posts'' = [''c1'', ''c2''] \<and>
   getSocketsInRoom (two_in_room ''collection:posts'') ''collection:pages'' = [] \<and>
   sent (state_of (emitEvent editors_rename_opts [] post7 (two_in_room ''collection:posts''))) =
     [(2, ''payload:event'', DEvent (to_pages post7)),
      (1, ''payload:event:all'', DEvent (to_pages post7)),
      (2, ''payload:event:all'', DEvent (to_pages post7))] \<and>
   transformEvent move_opts = Some (\<lambda>e. (to_pages e, to_pages e)) \<and>
   passes_filter move_opts post7 \<and> authorize move_opts = None \<and>
   getSocketsInRoom relay_instance ''collection:posts'' = [''c1''] \<and>
   sent (state_of (emitEvent move_opts [] post7 relay_instance)) =
     [(1, ''payload:event:all'', DEvent (to_pages post7))] \<and>
   published (state_of (emitEvent move_opts [] post7 relay_instance)) =
     [relay_envelope ''room-broadcast'' ''collection:pages'' ''payload:event''
        (DEvent (to_pages post7)),
      relay_envelope ''event'' ''collection:pages'' ''payload:event'' (DEvent (to_pages post7))]"
proof -
  let ?m = "two_in_room ''collection:posts''"
  let ?auth = "[''posts'' \<mapsto> editors_only, ''pages'' \<mapsto> (\<lambda>u e. Fulfils False)]"
  have ser: "serialises (DEvent (to_pages post7))"
    by (simp add: serialises_def to_pages_def post7_def)
  have c: "ev_collection (to_pages post7) = ''pages''" "ev_collection post7 = ''posts''"
    by (simp_all add: to_pages_def post7_def)
  have r: "''collection:'' @ ''posts'' = ''collection:posts''"
    "''collection:'' @ ''pages'' = ''collection:pages''"
    by simp_all
  have g: "getSocketsInRoom ?m ''collection:posts'' = [''c1'', ''c2'']"
    "getSocketsInRoom ?m ''collection:pages'' = []"
    "getSocketsInRoom relay_instance ''collection:pages'' = []"
    by (simp_all add: getSocketsInRoom_def two_in_room_def relay_instance_def)
  have 1: "transformEvent editors_rename_opts = Some (\<lambda>e. (to_pages e, e))"
    by (simp add: editors_rename_opts_def)
  have 2: "(\<lambda>e. (to_pages e, e)) post7 = (to_pages post7, post7)"
    by simp
  have 3: "passes_filter editors_rename_opts post7"
    by (simp add: passes_filter_def editors_rename_opts_def)
  have a: "authorize editors_rename_opts = Some ?auth"
    by (simp add: editors_rename_opts_def)
  have p: "property_get ?auth (ev_collection post7) = Some editors_only"
    unfolding c by (simp add: property_get_def)
  have k: "\<not> has_unknown_member ?m (''collection:'' @ ev_collection post7)"
    unfolding c r by (simp add: has_unknown_member_def g example_lookups Map_get_def)
  have f: "fulfils_for editors_only (to_pages post7) ?m
      (getSocketsInRoom ?m (''collection:'' @ ev_collection post7))"
    unfolding fulfils_for_def editors_only_def by (intro ballI allI impI exI) (rule refl)
  have af: "authorized_frames editors_only (to_pages post7) ?m [''c1'', ''c2''] =
      [(2, ''payload:event'', DEvent (to_pages post7))]"
    by (simp add: authorized_frames_def example_lookups Map_get_def ser editors_only_def
        alice_def bob_def)
  note th = c2_transformed_payload [OF 1 2 3, of "[]" ?m, THEN conjunct2, THEN conjunct2,
      rule_format, OF conjI [OF a p], THEN conjunct2, rule_format, OF conjI [OF k f]]
  from th obtain m' where e: "emitEvent editors_rename_opts [] post7 ?m = Normal m'"
    and s: "sent m' = sent ?m @
       authorized_frames editors_only (to_pages post7) ?m
         (getSocketsInRoom ?m (''collection:'' @ ev_collection post7)) @
       room_frames (sockets ?m) (DEvent (to_pages post7)) ''payload:event:all'' None
         (map fst (sockets ?m))"
    by (elim exE conjE)
  have 4: "sent (state_of (emitEvent editors_rename_opts [] post7 ?m)) =
     [(2, ''payload:event'', DEvent (to_pages post7)),
      (1, ''payload:event:all'', DEvent (to_pages post7)),
      (2, ''payload:event:all'', DEvent (to_pages post7))]"
    unfolding e state_of_simps s c r g af
    by (simp add: example_lookups room_frames_def is_excluded_def Map_get_def ser)
  have 5: "transformEvent move_opts = Some (\<lambda>e. (to_pages e, to_pages e))"
    by (simp add: move_opts_def)
  have 6: "(\<lambda>e. (to_pages e, to_pages e)) post7 = (to_pages post7, to_pages post7)"
    by simp
  have 7: "passes_filter move_opts post7"
    by (simp add: passes_filter_def move_opts_def)
  have 8: "authorize move_opts = None"
    by (simp add: move_opts_def)
  note th' = c2_transformed_payload [OF 5 6 7, of "[]" relay_instance, THEN conjunct1,
      rule_format, OF 8]
  from th' obtain m'' where e': "emitEvent move_opts [] post7 relay_instance = Normal m''"
    and s': "sent m'' = sent relay_instance @
       room_frames (sockets relay_instance) (DEvent (to_pages post7)) ''payload:event'' None
         (getSocketsInRoom relay_instance (''collection:'' @ ev_collection (to_pages post7))) @
       room_frames (sockets relay_instance) (DEvent (to_pages post7)) ''payload:event:all'' None
         (map fst (sockets relay_instance))"
    and p': "published m'' = published relay_instance @
       relayed_out relay_instance (DEvent (to_pages post7))
         [relay_envelope ''room-broadcast'' (''collection:'' @ ev_collection (to_pages post7))
            ''payload:event'' (DEvent (to_pages post7)),
          relay_envelope ''event'' (''collection:'' @ ev_collection (to_pages post7))
            ''payload:event'' (DEvent (to_pages post7))]"
    by (elim exE conjE)
  have 9: "sent (state_of (emitEvent move_opts [] post7 relay_instance)) =
     [(1, ''payload:event:all'', DEvent (to_pages post7))]"
    unfolding e' state_of_simps s' c r g
    by (simp add: example_lookups room_frames_def is_excluded_def Map_get_def ser)
  have 10: "published (state_of (emitEvent move_opts [] post7 relay_instance)) =
     [relay_envelope ''room-broadcast'' ''collection:pages'' ''payload:event''
        (DEvent (to_pages post7)),
      relay_envelope ''event'' ''collection:pages'' ''payload:event'' (DEvent (to_pages post7))]"
    unfolding e' state_of_simps p' c r
    by (simp add: example_lookups relayed_out_def ser)
  show ?thesis
    by (intro conjI 1 3 c g(1,2) 4 5 7 8 example_lookups(1) 9 10)
qed

text \<open>
  Claim C2 as stated fails. The transform returns the event moved to \<open>pages\<close>, as a new
  object; the room \<open>collection:pages\<close> has no member, yet the member of
  \<open>collection:posts\<close> gets the room-scoped frame and both envelopes name
  \<open>collection:posts\<close>. Emitting the transformed event itself gives another result.
\<close>

theorem c2_counterexample:
  "ev_collection (final_event rename_opts post7) = ''pages'' \<and>
   getSocketsInRoom relay_instance ''collection:pages'' = [] \<and>
   sent (state_of (emitEvent rename_opts [] post7 relay_instance)) =
     [(1, ''payload:event'', DEvent (to_pages post7)),
      (1, ''payload:event:all'', DEvent (to_pages post7))] \<and>
   map env_room (published (state_of (emitEvent rename_opts [] post7 relay_instance))) =
     [''collection:posts'', ''collection:posts''] \<and>
   emitEvent rename_opts [] post7 relay_instance \<noteq>
     emitEvent (rename_opts\<lparr>shouldEmit := None, transformEvent := None\<rparr>) []
       (final_event rename_opts post7) relay_instance"
proof -
  let ?plain = "rename_opts\<lparr>shouldEmit := None, transformEvent := None\<rparr>"
  have ser: "serialises (DEvent (to_pages post7))"
    by (simp add: serialises_def to_pages_def post7_def)
  have f: "passes_filter rename_opts post7" "authorize rename_opts = None"
    by (simp_all add: passes_filter_def rename_opts_def)
  have f': "passes_filter ?plain (to_pages post7)" "authorize ?plain = None"
    by (simp_all add: passes_filter_def rename_opts_def)
  have t: "transformed rename_opts post7 = (to_pages post7, post7)"
    "transformed ?plain (to_pages post7) = (to_pages post7, to_pages post7)"
    by (simp_all add: transformed_def rename_opts_def)
  have fe: "final_event rename_opts post7 = to_pages post7"
    "final_event ?plain (to_pages post7) = to_pages post7"
    by (simp_all add: final_event_def t)
  have rc: "routing_collection rename_opts post7 = ''posts''"
    "routing_collection ?plain (to_pages post7) = ''pages''"
    unfolding routing_collection_def t by (simp_all add: post7_def to_pages_def)
  have c: "ev_collection (to_pages post7) = ''pages''"
    by (simp add: to_pages_def)
  have r: "''collection:'' @ ''posts'' = ''collection:posts''"
    "''collection:'' @ ''pages'' = ''collection:pages''"
    by simp_all
  have g: "getSocketsInRoom relay_instance ''collection:pages'' = []"
    "getSocketsInRoom relay_instance ''collection:posts'' = [''c1'']"
    by (simp_all add: getSocketsInRoom_def relay_instance_def)
  from emitEvent_unauthorized_outputs [OF f, of "[]" relay_instance]
  obtain m' where e: "emitEvent rename_opts [] post7 relay_instance = Normal m'"
    and s0: "sent m' = sent relay_instance @
       room_frames (sockets relay_instance) (DEvent (to_pages post7)) ''payload:event'' None
         (getSocketsInRoom relay_instance ''collection:posts'') @
       room_frames (sockets relay_instance) (DEvent (to_pages post7)) ''payload:event:all'' None
         (map fst (sockets relay_instance))"
    and p0: "published m' = published relay_instance @
       relayed_out relay_instance (DEvent (to_pages post7))
         [relay_envelope ''room-broadcast'' ''collection:posts'' ''payload:event''
            (DEvent (to_pages post7)),
          relay_envelope ''event'' ''collection:posts'' ''payload:event''
            (DEvent (to_pages post7))]"
    unfolding fe rc r by (elim exE conjE)
  from emitEvent_unauthorized_outputs [OF f', of "[]" relay_instance]
  obtain m'' where e': "emitEvent ?plain [] (to_pages post7) relay_instance = Normal m''"
    and s0': "sent m'' = sent relay_instance @
       room_frames (sockets relay_instance) (DEvent (to_pages post7)) ''payload:event'' None
         (getSocketsInRoom relay_instance ''collection:pages'') @
       room_frames (sockets relay_instance) (DEvent (to_pages post7)) ''payload:event:all'' None
         (map fst (sockets relay_instance))"
    unfolding fe rc r by (elim exE conjE)
  have s: "sent (state_of (emitEvent rename_opts [] post7 relay_instance)) =
     [(1, ''payload:event'', DEvent (to_pages post7)),
      (1, ''payload:event:all'', DEvent (to_pages post7))]"
    unfolding e state_of_simps s0 g
    by (simp add: example_lookups room_frames_def is_excluded_def Map_get_def ser)
  have p: "map env_room (published (state_of (emitEvent rename_opts [] post7 relay_instance))) =
     [''collection:posts'', ''collection:posts'']"
    unfolding e state_of_simps p0
    by (simp add: example_lookups relayed_out_def relay_envelope_def ser)
  have s': "sent (state_of (emitEvent ?plain [] (to_pages post7) relay_instance)) =
     [(1, ''payload:event:all'', DEvent (to_pages post7))]"
    unfolding e' state_of_simps s0' g
    by (simp add: example_lookups room_frames_def is_excluded_def Map_get_def ser)
  have ne: "emitEvent rename_opts [] post7 relay_instance \<noteq>
     emitEvent ?plain [] (to_pages post7) relay_instance"
  proof
    assume "emitEvent rename_opts [] post7 relay_instance =
      emitEvent ?plain [] (to_pages post7) relay_instance"
    then have "sent (state_of (emitEvent rename_opts [] post7 relay_instance)) =
      sent (state_of (emitEvent ?plain [] (to_pages post7) relay_instance))"
      by (rule arg_cong)
    then show False unfolding s s' by simp
  qed
  show ?thesis
    unfolding fe(1) by (intro conjI c g(1) s p ne)
qed

section \<open>Properties of message handling\<close>

lemma on_simps [simp]:
  "sockets (on l h m) = sockets m" "rooms (on l h m) = rooms m"
  "customHandlers (on l h m) = (customHandlers m)(l \<mapsto> h)"
  "pubClient (on l h m) = pubClient m" "udata (on l h m) = udata m"
  "sent (on l h m) = sent m" "published (on l h m) = published m"
  by (simp_all add: on_def)

lemma register_all_customHandlers:
  "customHandlers (register_all regs m) = last_registered regs m"
proof (induction regs arbitrary: m)
  case Nil
  then show ?case by (simp add: register_all_def last_registered_def fun_eq_iff)
next
  case (Cons reg regs)
  have "last_registered regs (on (fst reg) (snd reg) m) = last_registered (reg # regs) m"
    by (cases reg) (auto simp: last_registered_def fun_eq_iff map_add_def split: option.splits)
  with Cons.IH [of "on (fst reg) (snd reg) m"] show ?case
    by (simp add: register_all_def)
qed

lemma register_all_eq:
  "register_all regs m = m\<lparr>customHandlers := last_registered regs m\<rparr>"
proof (induction regs arbitrary: m)
  case Nil
  then show ?case by (simp add: register_all_def last_registered_def)
next
  case (Cons reg regs)
  have 1: "register_all (reg # regs) m = register_all regs (on (fst reg) (snd reg) m)"
    by (simp add: register_all_def)
  have 2: "last_registered regs (on (fst reg) (snd reg) m) = last_registered (reg # regs) m"
    by (cases reg) (auto simp: last_registered_def fun_eq_iff map_add_def split: option.splits)
  show ?case
    unfolding 1 Cons.IH [of "on (fst reg) (snd reg) m"] 2 by (simp add: on_def)
qed

lemma join_step_customHandlers:
  "join_step w c (m\<lparr>customHandlers := H\<rparr>) = (join_step w c m)\<lparr>customHandlers := H\<rparr>"
  by (simp add: join_step_def joinRoom_eq rooms_add_def getSocketsInRoom_def Let_def)

lemma unsubscribe_step_customHandlers:
  "unsubscribe_step w c (m\<lparr>customHandlers := H\<rparr>) =
     (unsubscribe_step w c m)\<lparr>customHandlers := H\<rparr>"
  by (simp add: unsubscribe_step_def leaveRoom_def rooms_delete_def Let_def split: option.splits)

lemma handleJoinCollection_customHandlers:
  "handleJoinCollection w d (m\<lparr>customHandlers := H\<rparr>) =
     (handleJoinCollection w d m)\<lparr>customHandlers := H\<rparr>"
proof -
  have "fold (join_step w) cs (m\<lparr>customHandlers := H\<rparr>) =
      (fold (join_step w) cs m)\<lparr>customHandlers := H\<rparr>" for cs
    by (induction cs arbitrary: m) (simp_all add: join_step_customHandlers)
  then show ?thesis by (simp add: handleJoinCollection_def)
qed

lemma handleUnsubscribe_customHandlers:
  "handleUnsubscribe w d (m\<lparr>customHandlers := H\<rparr>) =
     (handleUnsubscribe w d m)\<lparr>customHandlers := H\<rparr>"
proof -
  have "fold (unsubscribe_step w) cs (m\<lparr>customHandlers := H\<rparr>) =
      (fold (unsubscribe_step w) cs m)\<lparr>customHandlers := H\<rparr>" for cs
    by (induction cs arbitrary: m) (simp_all add: unsubscribe_step_customHandlers)
  then show ?thesis by (simp add: handleUnsubscribe_def)
qed

text \<open>What a paired join or leave changes.\<close>

lemma join_step_paired: "join_step w c m = paired_join w (''collection:'' @ c) m"
  by (simp add: join_step_def paired_join_def Let_def)

lemma unsubscribe_step_paired: "unsubscribe_step w c m = paired_leave w (''collection:'' @ c) m"
  by (simp add: unsubscribe_step_def paired_leave_def Let_def)

lemma paired_join_simps [simp]:
  "sockets (paired_join w r m) = sockets m"
  "customHandlers (paired_join w r m) = customHandlers m"
  "pubClient (paired_join w r m) = pubClient m"
  "sent (paired_join w r m) = sent m" "published (paired_join w r m) = published m"
  "udata (paired_join w r m) =
     (udata m)(w := (udata m w)\<lparr>ud_rooms := Set_add r (ud_rooms (udata m w))\<rparr>)"
  by (simp_all add: paired_join_def rooms_add_def)

lemma paired_leave_simps [simp]:
  "sockets (paired_leave w r m) = sockets m"
  "customHandlers (paired_leave w r m) = customHandlers m"
  "pubClient (paired_leave w r m) = pubClient m"
  "sent (paired_leave w r m) = sent m" "published (paired_leave w r m) = published m"
  "udata (paired_leave w r m) =
     (udata m)(w := (udata m w)\<lparr>ud_rooms := Set_delete r (ud_rooms (udata m w))\<rparr>)"
  by (simp_all add: paired_leave_def rooms_delete_def)

lemma getSocketsInRoom_paired_join:
  "getSocketsInRoom (paired_join w r m) r' =
     (if r' = r then Set_add (ud_id (udata m w)) (getSocketsInRoom m r)
      else getSocketsInRoom m r')"
proof -
  have "getSocketsInRoom (paired_join w r m) r' =
      getSocketsInRoom (joinRoom (ud_id (udata m w)) r m) r'"
    by (rule getSocketsInRoom_cong) (simp add: paired_join_def rooms_add_def)
  then show ?thesis by (simp only: getSocketsInRoom_joinRoom)
qed

lemma getSocketsInRoom_paired_leave:
  "getSocketsInRoom (paired_leave w r m) r' =
     (if r' = r then Set_delete (ud_id (udata m w)) (getSocketsInRoom m r)
      else getSocketsInRoom m r')"
proof -
  have "getSocketsInRoom (paired_leave w r m) r' =
      getSocketsInRoom (leaveRoom (ud_id (udata m w)) r m) r'"
    by (rule getSocketsInRoom_cong) (simp add: paired_leave_def rooms_delete_def)
  then show ?thesis by (simp only: getSocketsInRoom_leaveRoom)
qed

text \<open>What the two built-in handlers change.\<close>

lemma fold_join_step_effects:
  "sockets (fold (join_step w) cs m) = sockets m"
  "sent (fold (join_step w) cs m) = sent m"
  "published (fold (join_step w) cs m) = published m"
  "ud_id (udata (fold (join_step w) cs m) w') = ud_id (udata m w')"
  "ud_user (udata (fold (join_step w) cs m) w') = ud_user (udata m w')"
  "w' \<noteq> w \<Longrightarrow> udata (fold (join_step w) cs m) w' = udata m w'"
  "set (ud_rooms (udata (fold (join_step w) cs m) w)) =
     set (ud_rooms (udata m w)) \<union> (\<lambda>c. ''collection:'' @ c) ` set cs"
  by (induction cs arbitrary: m; simp add: join_step_paired; blast?)+

lemma fold_join_step_members:
  "getSocketsInRoom (fold (join_step w) cs m) r =
     (if r \<in> (\<lambda>c. ''collection:'' @ c) ` set cs
      then Set_add (ud_id (udata m w)) (getSocketsInRoom m r) else getSocketsInRoom m r)"
proof (induction cs arbitrary: m)
  case Nil
  then show ?case by simp
next
  case (Cons c cs)
  let ?m1 = "paired_join w (''collection:'' @ c) m"
  have i: "ud_id (udata ?m1 w) = ud_id (udata m w)" by simp
  have "getSocketsInRoom (fold (join_step w) (c # cs) m) r =
      getSocketsInRoom (fold (join_step w) cs ?m1) r"
    by (simp add: join_step_paired)
  also have "\<dots> = (if r \<in> (\<lambda>c. ''collection:'' @ c) ` set cs
      then Set_add (ud_id (udata m w)) (getSocketsInRoom ?m1 r) else getSocketsInRoom ?m1 r)"
    unfolding Cons.IH i ..
  also have "\<dots> = (if r \<in> (\<lambda>c. ''collection:'' @ c) ` set (c # cs)
      then Set_add (ud_id (udata m w)) (getSocketsInRoom m r) else getSocketsInRoom m r)"
    unfolding getSocketsInRoom_paired_join by auto
  finally show ?case .
qed

lemma fold_unsubscribe_step_effects:
  "sockets (fold (unsubscribe_step w) cs m) = sockets m"
  "sent (fold (unsubscribe_step w) cs m) = sent m"
  "published (fold (unsubscribe_step w) cs m) = published m"
  "ud_id (udata (fold (unsubscribe_step w) cs m) w') = ud_id (udata m w')"
  "ud_user (udata (fold (unsubscribe_step w) cs m) w') = ud_user (udata m w')"
  "w' \<noteq> w \<Longrightarrow> udata (fold (unsubscribe_step w) cs m) w' = udata m w'"
  "set (ud_rooms (udata (fold (unsubscribe_step w) cs m) w)) =
     set (ud_rooms (udata m w)) - (\<lambda>c. ''collection:'' @ c) ` set cs"
  by (induction cs arbitrary: m; simp add: unsubscribe_step_paired; blast?)+

lemma fold_unsubscribe_step_members:
  "getSocketsInRoom (fold (unsubscribe_step w) cs m) r =
     (if r \<in> (\<lambda>c. ''collection:'' @ c) ` set cs
      then Set_delete (ud_id (udata m w)) (getSocketsInRoom m r) else getSocketsInRoom m r)"
proof (induction cs arbitrary: m)
  case Nil
  then show ?case by simp
next
  case (Cons c cs)
  let ?m1 = "paired_leave w (''collection:'' @ c) m"
  have i: "ud_id (udata ?m1 w) = ud_id (udata m w)" by simp
  have "getSocketsInRoom (fold (unsubscribe_step w) (c # cs) m) r =
      getSocketsInRoom (fold (unsubscribe_step w) cs ?m1) r"
    by (simp add: unsubscribe_step_paired)
  also have "\<dots> = (if r \<in> (\<lambda>c. ''collection:'' @ c) ` set cs
      then Set_delete (ud_id (udata m w)) (getSocketsInRoom ?m1 r) else getSocketsInRoom ?m1 r)"
    unfolding Cons.IH i ..
  also have "\<dots> = (if r \<in> (\<lambda>c. ''collection:'' @ c) ` set (c # cs)
      then Set_delete (ud_id (udata m w)) (getSocketsInRoom m r) else getSocketsInRoom m r)"
    unfolding getSocketsInRoom_paired_leave by auto
  finally show ?case .
qed

lemma set_rooms_of: "set (rooms_of d) = (\<lambda>c. ''collection:'' @ c) ` set (collections_of d)"
  by (simp add: rooms_of_def)

lemma customHandlers_update_simps [simp]:
  "getSocketsInRoom (m\<lparr>customHandlers := H\<rparr>) r = getSocketsInRoom m r"
  by (simp add: getSocketsInRoom_def)

text \<open>
  Claim C7. After any sequence of registrations, a message labelled \<open>subscribe\<close> or
  \<open>join-collection\<close> does what the built-in join does and a message labelled
  \<open>unsubscribe\<close> what the built-in leave does: the result does not depend on how
  handlers run, and it is the result for the state without the registrations, with the
  handler table put back, so that no registered handler has any effect. The built-in join
  adds the connection's id to the members of every room that the message names and these
  rooms to the connection's own room set; the built-in leave removes both; the other
  rooms, the other connections, the connection table and what was sent and published stay
  as they are. For every other label the handler registered last under it is invoked (or
  the one already in the table when the sequence has none), and the state is left as it
  is when there is none.
\<close>

theorem c7_reserved_labels:
  "(msg_type msg = ''subscribe'' \<or> msg_type msg = ''join-collection'' \<longrightarrow>
      (\<exists>m'. handleMessage invoke w msg (register_all regs m) = m' \<and>
         m' = (handleJoinCollection w (msg_data msg) m)
                \<lparr>customHandlers := last_registered regs m\<rparr> \<and>
         (\<forall>r. getSocketsInRoom m' r =
            (if r \<in> set (rooms_of (msg_data msg))
             then Set_add (ud_id (udata m w)) (getSocketsInRoom m r)
             else getSocketsInRoom m r)) \<and>
         set (ud_rooms (udata m' w)) = set (ud_rooms (udata m w)) \<union> set (rooms_of (msg_data msg)) \<and>
         (\<forall>w'. w' \<noteq> w \<longrightarrow> udata m' w' = udata m w') \<and>
         sockets m' = sockets m \<and> sent m' = sent m \<and> published m' = published m)) \<and>
   (msg_type msg = ''unsubscribe'' \<longrightarrow>
      (\<exists>m'. handleMessage invoke w msg (register_all regs m) = m' \<and>
         m' = (handleUnsubscribe w (msg_data msg) m)
                \<lparr>customHandlers := last_registered regs m\<rparr> \<and>
         (\<forall>r. getSocketsInRoom m' r =
            (if r \<in> set (rooms_of (msg_data msg))
             then Set_delete (ud_id (udata m w)) (getSocketsInRoom m r)
             else getSocketsInRoom m r)) \<and>
         set (ud_rooms (udata m' w)) = set (ud_rooms (udata m w)) - set (rooms_of (msg_data msg)) \<and>
         (\<forall>w'. w' \<noteq> w \<longrightarrow> udata m' w' = udata m w') \<and>
         sockets m' = sockets m \<and> sent m' = sent m \<and> published m' = published m)) \<and>
   (msg_type msg \<notin> {''subscribe'', ''join-collection'', ''unsubscribe''} \<longrightarrow>
      handleMessage invoke w msg (register_all regs m) =
        (case last_registered regs m (msg_type msg) of
           Some h \<Rightarrow> state_of (invoke h w (msg_data msg) (register_all regs m))
         | None \<Rightarrow> register_all regs m))"
proof (intro conjI impI)
  let ?m' = "(handleJoinCollection w (msg_data msg) m)\<lparr>customHandlers := last_registered regs m\<rparr>"
  assume "msg_type msg = ''subscribe'' \<or> msg_type msg = ''join-collection''"
  then have "handleMessage invoke w msg (register_all regs m) =
      handleJoinCollection w (msg_data msg) (register_all regs m)"
    by (auto simp: handleMessage_def)
  then have 1: "handleMessage invoke w msg (register_all regs m) = ?m'"
    by (simp only: register_all_eq handleJoinCollection_customHandlers)
  have 2: "\<forall>r. getSocketsInRoom ?m' r =
            (if r \<in> set (rooms_of (msg_data msg))
             then Set_add (ud_id (udata m w)) (getSocketsInRoom m r)
             else getSocketsInRoom m r)"
    by (simp add: handleJoinCollection_def fold_join_step_members set_rooms_of)
  have 3: "set (ud_rooms (udata ?m' w)) =
      set (ud_rooms (udata m w)) \<union> set (rooms_of (msg_data msg))"
    by (simp add: handleJoinCollection_def fold_join_step_effects set_rooms_of)
  have 4: "\<forall>w'. w' \<noteq> w \<longrightarrow> udata ?m' w' = udata m w'"
    by (simp add: handleJoinCollection_def fold_join_step_effects)
  have 5: "sockets ?m' = sockets m" "sent ?m' = sent m" "published ?m' = published m"
    by (simp_all add: handleJoinCollection_def fold_join_step_effects)
  show "\<exists>m'. handleMessage invoke w msg (register_all regs m) = m' \<and>
         m' = ?m' \<and>
         (\<forall>r. getSocketsInRoom m' r =
            (if r \<in> set (rooms_of (msg_data msg))
             then Set_add (ud_id (udata m w)) (getSocketsInRoom m r)
             else getSocketsInRoom m r)) \<and>
         set (ud_rooms (udata m' w)) = set (ud_rooms (udata m w)) \<union> set (rooms_of (msg_data msg)) \<and>
         (\<forall>w'. w' \<noteq> w \<longrightarrow> udata m' w' = udata m w') \<and>
         sockets m' = sockets m \<and> sent m' = sent m \<and> published m' = published m"
    by (rule exI [of _ ?m']) (intro conjI 1 refl 2 3 4 5)
next
  let ?m' = "(handleUnsubscribe w (msg_data msg) m)\<lparr>customHandlers := last_registered regs m\<rparr>"
  assume u: "msg_type msg = ''unsubscribe''"
  then have "\<not> (msg_type msg = ''subscribe'' \<or> msg_type msg = ''join-collection'')"
    by simp
  then have "handleMessage invoke w msg (register_all regs m) =
      handleUnsubscribe w (msg_data msg) (register_all regs m)"
    using u by (simp add: handleMessage_def)
  then have 1: "handleMessage invoke w msg (register_all regs m) = ?m'"
    by (simp only: register_all_eq handleUnsubscribe_customHandlers)
  have 2: "\<forall>r. getSocketsInRoom ?m' r =
            (if r \<in> set (rooms_of (msg_data msg))
             then Set_delete (ud_id (udata m w)) (getSocketsInRoom m r)
             else getSocketsInRoom m r)"
    by (simp add: handleUnsubscribe_def fold_unsubscribe_step_members set_rooms_of)
  have 3: "set (ud_rooms (udata ?m' w)) =
      set (ud_rooms (udata m w)) - set (rooms_of (msg_data msg))"
    by (simp add: handleUnsubscribe_def fold_unsubscribe_step_effects set_rooms_of)
  have 4: "\<forall>w'. w' \<noteq> w \<longrightarrow> udata ?m' w' = udata m w'"
    by (simp add: handleUnsubscribe_def fold_unsubscribe_step_effects)
  have 5: "sockets ?m' = sockets m" "sent ?m' = sent m" "published ?m' = published m"
    by (simp_all add: handleUnsubscribe_def fold_unsubscribe_step_effects)
  show "\<exists>m'. handleMessage invoke w msg (register_all regs m) = m' \<and>
         m' = ?m' \<and>
         (\<forall>r. getSocketsInRoom m' r =
            (if r \<in> set (rooms_of (msg_data msg))
             then Set_delete (ud_id (udata m w)) (getSocketsInRoom m r)
             else getSocketsInRoom m r)) \<and>
         set (ud_rooms (udata m' w)) = set (ud_rooms (udata m w)) - set (rooms_of (msg_data msg)) \<and>
         (\<forall>w'. w' \<noteq> w \<longrightarrow> udata m' w' = udata m w') \<and>
         sockets m' = sockets m \<and> sent m' = sent m \<and> published m' = published m"
    by (rule exI [of _ ?m']) (intro conjI 1 refl 2 3 4 5)
next
  assume "msg_type msg \<notin> {''subscribe'', ''join-collection'', ''unsubscribe''}"
  then have n: "\<not> (msg_type msg = ''subscribe'' \<or> msg_type msg = ''join-collection'')"
    "msg_type msg \<noteq> ''unsubscribe''"
    by simp_all
  have "handleMessage invoke w msg (register_all regs m) =
      (case customHandlers (register_all regs m) (msg_type msg) of
         Some h \<Rightarrow> state_of (invoke h w (msg_data msg) (register_all regs m))
       | None \<Rightarrow> register_all regs m)"
    using n by (simp add: handleMessage_def state_of_def split: option.splits completion.splits)
  then show "handleMessage invoke w msg (register_all regs m) =
        (case last_registered regs m (msg_type msg) of
           Some h \<Rightarrow> state_of (invoke h w (msg_data msg) (register_all regs m))
         | None \<Rightarrow> register_all regs m)"
    by (simp only: register_all_customHandlers)
qed

theorem c7_reserved_labels_witness:
  "getSocketsInRoom relay_instance ''collection:pages'' = [] \<and>
   getSocketsInRoom relay_instance ''collection:posts'' = [''c1''] \<and>
   ud_rooms (udata relay_instance 1) = [''collection:posts''] \<and>
   getSocketsInRoom
     (handleMessage star_invoke 1
        \<lparr>msg_type = ''subscribe'', msg_data = Array [''pages'', ''posts'']\<rparr>
        (register_all [(''ping'', 5), (''subscribe'', 2), (''unsubscribe'', 4), (''ping'', 3)]
           relay_instance)) ''collection:pages'' = [''c1''] \<and>
   set (ud_rooms (udata
     (handleMessage star_invoke 1
        \<lparr>msg_type = ''subscribe'', msg_data = Array [''pages'', ''posts'']\<rparr>
        (register_all [(''ping'', 5), (''subscribe'', 2), (''unsubscribe'', 4), (''ping'', 3)]
           relay_instance)) 1)) = {''collection:posts'', ''collection:pages''} \<and>
   sent
     (handleMessage star_invoke 1
        \<lparr>msg_type = ''subscribe'', msg_data = Array [''pages'', ''posts'']\<rparr>
        (register_all [(''ping'', 5), (''subscribe'', 2), (''unsubscribe'', 4), (''ping'', 3)]
           relay_instance)) = [] \<and>
   getSocketsInRoom
     (handleMessage star_invoke 1 \<lparr>msg_type = ''unsubscribe'', msg_data = Single ''posts''\<rparr>
        (register_all [(''ping'', 5), (''subscribe'', 2), (''unsubscribe'', 4), (''ping'', 3)]
           relay_instance)) ''collection:posts'' = [] \<and>
   set (ud_rooms (udata
     (handleMessage star_invoke 1 \<lparr>msg_type = ''unsubscribe'', msg_data = Single ''posts''\<rparr>
        (register_all [(''ping'', 5), (''subscribe'', 2), (''unsubscribe'', 4), (''ping'', 3)]
           relay_instance)) 1)) = {} \<and>
   sent
     (handleMessage star_invoke 1 \<lparr>msg_type = ''unsubscribe'', msg_data = Single ''posts''\<rparr>
        (register_all [(''ping'', 5), (''subscribe'', 2), (''unsubscribe'', 4), (''ping'', 3)]
           relay_instance)) = [] \<and>
   ''ping'' \<notin> {''subscribe'', ''join-collection'', ''unsubscribe''} \<and>
   last_registered [(''ping'', 5), (''subscribe'', 2), (''unsubscribe'', 4), (''ping'', 3)]
     relay_instance ''ping'' = Some 3 \<and>
   sent (handleMessage star_invoke 1 \<lparr>msg_type = ''ping'', msg_data = Single ''x''\<rparr>
     (register_all [(''ping'', 5), (''subscribe'', 2), (''unsubscribe'', 4), (''ping'', 3)]
        relay_instance)) = [(1, ''reply'', DOther (Json ''***''))]"
proof -
  let ?regs = "[(''ping'', 5::nat), (''subscribe'', 2), (''unsubscribe'', 4), (''ping'', 3)]"
  let ?sub = "\<lparr>msg_type = ''subscribe'', msg_data = Array [''pages'', ''posts'']\<rparr>"
  let ?unsub = "\<lparr>msg_type = ''unsubscribe'', msg_data = Single ''posts''\<rparr>"
  let ?ping = "\<lparr>msg_type = ''ping'', msg_data = Single ''x''\<rparr>"
  have g: "getSocketsInRoom relay_instance ''collection:pages'' = []"
    "getSocketsInRoom relay_instance ''collection:posts'' = [''c1'']"
    by (simp_all add: getSocketsInRoom_def relay_instance_def)
  have u: "ud_rooms (udata relay_instance 1) = [''collection:posts'']"
    "ud_id (udata relay_instance 1) = ''c1''" "sent relay_instance = []"
    by (simp_all add: relay_instance_def)
  have ro: "rooms_of (msg_data ?sub) = [''collection:pages'', ''collection:posts'']"
    "rooms_of (msg_data ?unsub) = [''collection:posts'']"
    by (simp_all add: rooms_of_def collections_of_def)
  have 1: "msg_type ?sub = ''subscribe'' \<or> msg_type ?sub = ''join-collection''" by simp
  have 2: "msg_type ?unsub = ''unsubscribe''" by simp
  have 3: "msg_type ?ping \<notin> {''subscribe'', ''join-collection'', ''unsubscribe''}" by simp
  have 4: "last_registered ?regs relay_instance ''ping'' = Some 3"
    by (simp add: last_registered_def)
  have r: "replicate 3 (CHR ''*'') = ''***''"
    by (simp add: numeral_3_eq_3)
  have s0: "sent (register_all ?regs relay_instance) = []"
    by (simp add: register_all_eq relay_instance_def)
  from c7_reserved_labels [of ?sub star_invoke 1 ?regs relay_instance, THEN conjunct1,
      THEN mp, OF 1]
  obtain m' where e: "handleMessage star_invoke 1 ?sub (register_all ?regs relay_instance) = m'"
    and a1: "\<forall>r. getSocketsInRoom m' r =
            (if r \<in> set (rooms_of (msg_data ?sub))
             then Set_add (ud_id (udata relay_instance 1)) (getSocketsInRoom relay_instance r)
             else getSocketsInRoom relay_instance r)"
    and a2: "set (ud_rooms (udata m' 1)) =
      set (ud_rooms (udata relay_instance 1)) \<union> set (rooms_of (msg_data ?sub))"
    and a3: "sent m' = sent relay_instance"
    by (elim exE conjE)
  from a1 have "getSocketsInRoom m' ''collection:pages'' =
            (if ''collection:pages'' \<in> set (rooms_of (msg_data ?sub))
             then Set_add (ud_id (udata relay_instance 1))
                    (getSocketsInRoom relay_instance ''collection:pages'')
             else getSocketsInRoom relay_instance ''collection:pages'')"
    by (rule spec)
  then have b1: "getSocketsInRoom m' ''collection:pages'' = [''c1'']"
    unfolding ro g u by (simp add: Set_add_def)
  from a2 have b2: "set (ud_rooms (udata m' 1)) = {''collection:posts'', ''collection:pages''}"
    unfolding ro u by auto
  from a3 have b3: "sent m' = []" unfolding u .
  from c7_reserved_labels [of ?unsub star_invoke 1 ?regs relay_instance, THEN conjunct2,
      THEN conjunct1, THEN mp, OF 2]
  obtain m'' where e': "handleMessage star_invoke 1 ?unsub (register_all ?regs relay_instance) = m''"
    and c1: "\<forall>r. getSocketsInRoom m'' r =
            (if r \<in> set (rooms_of (msg_data ?unsub))
             then Set_delete (ud_id (udata relay_instance 1)) (getSocketsInRoom relay_instance r)
             else getSocketsInRoom relay_instance r)"
    and c2: "set (ud_rooms (udata m'' 1)) =
      set (ud_rooms (udata relay_instance 1)) - set (rooms_of (msg_data ?unsub))"
    and c3: "sent m'' = sent relay_instance"
    by (elim exE conjE)
  from c1 have "getSocketsInRoom m'' ''collection:posts'' =
            (if ''collection:posts'' \<in> set (rooms_of (msg_data ?unsub))
             then Set_delete (ud_id (udata relay_instance 1))
                    (getSocketsInRoom relay_instance ''collection:posts'')
             else getSocketsInRoom relay_instance ''collection:posts'')"
    by (rule spec)
  then have d1: "getSocketsInRoom m'' ''collection:posts'' = []"
    unfolding ro g u by (simp add: Set_delete_def)
  from c2 have d2: "set (ud_rooms (udata m'' 1)) = {}"
    unfolding ro u by simp
  from c3 have d3: "sent m'' = []" unfolding u .
  have p: "handleMessage star_invoke 1 ?ping (register_all ?regs relay_instance) =
        (case last_registered ?regs relay_instance (msg_type ?ping) of
           Some h \<Rightarrow> state_of (star_invoke h 1 (msg_data ?ping) (register_all ?regs relay_instance))
         | None \<Rightarrow> register_all ?regs relay_instance)"
    by (rule c7_reserved_labels [of ?ping star_invoke 1 ?regs relay_instance, THEN conjunct2,
      THEN conjunct2, THEN mp, OF 3])
  have q: "sent (handleMessage star_invoke 1 ?ping (register_all ?regs relay_instance)) =
     [(1, ''reply'', DOther (Json ''***''))]"
    unfolding p by (simp add: 4 r star_invoke_def s0 serialises_def)
  have np: "''ping'' \<notin> {''subscribe'', ''join-collection'', ''unsubscribe''}" by simp
  show ?thesis
    unfolding e e' by (intro conjI g u(1) b1 b2 b3 d1 d2 d3 np 4 q)
qed

section \<open>Properties of the handshake\<close>

lemma upgrade_pending_not_aborted:
  "upgrade verify req = (writes, Some p) \<Longrightarrow> writes = [] \<and> \<not> p_aborted p"
  by (auto simp: upgrade_def Let_def split: option.splits if_splits)

lemma upgrade_resume_aborted: "p_aborted p \<Longrightarrow> upgrade_resume p result uuid = []"
  by (simp add: upgrade_resume_def catch_block_def split: lookup_result.splits)

text \<open>
  Claim C6. Let the upgrade handler reach the suspension, so that it has written nothing
  yet, and let the abort observer run before the lookup settles. Then, however the lookup
  settles, the resumed task writes nothing to the response, neither an upgrade nor a
  rejection; and as no upgrade is written, the transport opens no socket and the state of
  the manager, its connection table included, stays as it is.
\<close>

theorem c6_abort_safety:
  assumes "upgrade verify req = (writes, Some p)"
  shows "writes = [] \<and>
         upgrade_resume (onAborted p) result uuid = [] \<and>
         transport_open opts w (upgrade_resume (onAborted p) result uuid) m = m"
proof -
  have "p_aborted (onAborted p)" by (simp add: onAborted_def)
  then have "upgrade_resume (onAborted p) result uuid = []"
    by (rule upgrade_resume_aborted)
  with upgrade_pending_not_aborted [OF assms] show ?thesis
    by (simp add: transport_open_def)
qed

theorem c6_abort_safety_witness:
  "upgrade accept_any token_request =
     ([], Some \<lparr>p_aborted = False, p_decoded = \<lparr>dec_collection = None, dec_id = IdNum 1\<rparr>,
                p_key = ''key'', p_protocol = '''', p_extensions = ''''\<rparr>) \<and>
   upgrade_resume (onAborted \<lparr>p_aborted = False,
       p_decoded = \<lparr>dec_collection = None, dec_id = IdNum 1\<rparr>,
       p_key = ''key'', p_protocol = '''', p_extensions = ''''\<rparr>)
     (Resolves (Some \<lparr>doc_id = IdNum 1, doc_email = None, doc_role = None\<rparr>)) ''c7'' = [] \<and>
   transport_open no_hooks 7
     (upgrade_resume (onAborted \<lparr>p_aborted = False,
         p_decoded = \<lparr>dec_collection = None, dec_id = IdNum 1\<rparr>,
         p_key = ''key'', p_protocol = '''', p_extensions = ''''\<rparr>)
       (Resolves (Some \<lparr>doc_id = IdNum 1, doc_email = None, doc_role = None\<rparr>)) ''c7'')
     relay_instance = relay_instance \<and>
   upgrade_resume \<lparr>p_aborted = False,
       p_decoded = \<lparr>dec_collection = None, dec_id = IdNum 1\<rparr>,
       p_key = ''key'', p_protocol = '''', p_extensions = ''''\<rparr>
     (Resolves (Some \<lparr>doc_id = IdNum 1, doc_email = None, doc_role = None\<rparr>)) ''c7'' \<noteq> []"
proof -
  let ?p = "\<lparr>p_aborted = False, p_decoded = \<lparr>dec_collection = None, dec_id = IdNum 1\<rparr>,
             p_key = ''key'', p_protocol = '''', p_extensions = ''''\<rparr>"
  have 1: "upgrade accept_any token_request = ([], Some ?p)"
    by (simp add: upgrade_def accept_any_def token_request_def)
  have 2: "upgrade_resume ?p
     (Resolves (Some \<lparr>doc_id = IdNum 1, doc_email = None, doc_role = None\<rparr>)) ''c7'' \<noteq> []"
    by (simp add: upgrade_resume_def)
  note t = c6_abort_safety [OF 1, of "Resolves (Some \<lparr>doc_id = IdNum 1, doc_email = None,
      doc_role = None\<rparr>)" "''c7''" no_hooks 7 relay_instance]
  show ?thesis
    by (intro conjI 1 2 t [THEN conjunct2, THEN conjunct1] t [THEN conjunct2, THEN conjunct2])
qed

section \<open>Membership symmetry\<close>

lemma Map_set_fresh: "k \<notin> fst ` set ps \<Longrightarrow> Map_set k v ps = ps @ [(k, v)]"
  by (induction ps) auto

lemma set_Map_delete: "set (Map_delete k ps) = {p \<in> set ps. fst p \<noteq> k}"
  by (auto simp: Map_delete_def)

lemma distinct_Map_delete: "distinct (map fst ps) \<Longrightarrow> distinct (map fst (Map_delete k ps))"
  by (simp add: Map_delete_def distinct_map_filter)

lemma registry_inv_cong:
  assumes "sockets m' = sockets m" and "rooms m' = rooms m" and "udata m' = udata m"
  shows "registry_inv m' = registry_inv m"
  using assms by (simp add: registry_inv_def membership_symmetric_def getSocketsInRoom_def)

lemma registry_inv_new: "registry_inv (new_manager redis ud)"
  by (simp add: registry_inv_def membership_symmetric_def new_manager_def getSocketsInRoom_def)

lemma same_key_same_socket:
  assumes "distinct (map fst ps)" and "(i, w) \<in> set ps" and "(i, w') \<in> set ps"
  shows "w = w'"
  using assms by (meson eq_key_imp_eq_value)

text \<open>Opening a new socket with a fresh id and no rooms.\<close>

lemma registry_inv_open:
  fixes m :: "'h manager" and usr :: "user option"
  assumes inv: "registry_inv m" and w: "w \<notin> snd ` set (sockets m)"
    and u: "uuid \<notin> fst ` set (sockets m)"
  defines "m' \<equiv> m\<lparr>udata := (udata m)(w := \<lparr>ud_user = usr, ud_id = uuid, ud_rooms = []\<rparr>),
                    sockets := Map_set uuid w (sockets m)\<rparr>"
  shows "registry_inv m'"
proof -
  have s: "sockets m' = sockets m @ [(uuid, w)]"
    by (simp add: m'_def Map_set_fresh [OF u])
  have g: "getSocketsInRoom m' r = getSocketsInRoom m r" for r
    by (simp add: m'_def getSocketsInRoom_def)
  have old: "udata m' w' = udata m w'" if "(i, w') \<in> set (sockets m)" for i w'
    using that w by (auto simp: m'_def image_iff)
  have new: "udata m' w = \<lparr>ud_user = usr, ud_id = uuid, ud_rooms = []\<rparr>"
    by (simp add: m'_def)
  from inv have i1: "\<And>i w'. (i, w') \<in> set (sockets m) \<Longrightarrow> ud_id (udata m w') = i"
    and i2: "distinct (map fst (sockets m))"
    and i3: "\<And>i w' r. (i, w') \<in> set (sockets m) \<Longrightarrow>
          r \<in> set (ud_rooms (udata m w')) \<longleftrightarrow> ud_id (udata m w') \<in> set (getSocketsInRoom m r)"
    and i4: "\<And>r. set (getSocketsInRoom m r) \<subseteq> fst ` set (sockets m)"
    by (auto simp: registry_inv_def membership_symmetric_def)
  have 1: "\<forall>(i, w') \<in> set (sockets m'). ud_id (udata m' w') = i"
    using i1 old new by (auto simp: s)
  have 2: "distinct (map fst (sockets m'))"
    using i2 u by (simp add: s)
  have "uuid \<notin> set (getSocketsInRoom m r)" for r
    using i4 [of r] u by auto
  then have 3: "membership_symmetric m'"
    unfolding membership_symmetric_def using i3 old new by (auto simp: s g)
  have 4: "\<forall>r. set (getSocketsInRoom m' r) \<subseteq> fst ` set (sockets m')"
    using i4 by (auto simp: s g)
  show ?thesis unfolding registry_inv_def using 1 2 3 4 by blast
qed

text \<open>A paired join or leave of a room of any name, for an open socket.\<close>

lemma registry_inv_paired_join:
  assumes inv: "registry_inv m" and w: "w \<in> snd ` set (sockets m)"
  shows "registry_inv (paired_join w room m)"
proof -
  let ?m' = "paired_join w room m"
  from inv have i1: "\<And>i w'. (i, w') \<in> set (sockets m) \<Longrightarrow> ud_id (udata m w') = i"
    and i2: "distinct (map fst (sockets m))"
    and i3: "\<And>i w' r. (i, w') \<in> set (sockets m) \<Longrightarrow>
          r \<in> set (ud_rooms (udata m w')) \<longleftrightarrow> ud_id (udata m w') \<in> set (getSocketsInRoom m r)"
    and i4: "\<And>r. set (getSocketsInRoom m r) \<subseteq> fst ` set (sockets m)"
    by (auto simp: registry_inv_def membership_symmetric_def)
  from w obtain i where iw: "(i, w) \<in> set (sockets m)" by auto
  then have id: "ud_id (udata m w) = i" by (rule i1)
  have other: "ud_id (udata m w') \<noteq> i" if "(j, w') \<in> set (sockets m)" "w' \<noteq> w" for j w'
    using that i1 [OF that(1)] same_key_same_socket [OF i2 iw, of w'] by auto
  have 1: "\<forall>(j, w') \<in> set (sockets ?m'). ud_id (udata ?m' w') = j"
    using i1 by auto
  have 2: "distinct (map fst (sockets ?m'))"
    using i2 by simp
  have 3: "membership_symmetric ?m'"
    unfolding membership_symmetric_def
  proof (intro ballI allI, clarify)
    fix j w' r
    assume jw: "(j, w') \<in> set (sockets ?m')"
    then have jw': "(j, w') \<in> set (sockets m)" by simp
    show "r \<in> set (ud_rooms (udata ?m' w')) \<longleftrightarrow>
        ud_id (udata ?m' w') \<in> set (getSocketsInRoom ?m' r)"
    proof (cases "w' = w")
      case True
      then show ?thesis
        using i3 [OF iw, of r] by (auto simp: getSocketsInRoom_paired_join id)
    next
      case False
      with other [OF jw'] i3 [OF jw', of r] show ?thesis
        by (auto simp: getSocketsInRoom_paired_join id)
    qed
  qed
  have ik: "i \<in> fst ` set (sockets m)"
    using iw by force
  have 4: "\<forall>r. set (getSocketsInRoom ?m' r) \<subseteq> fst ` set (sockets ?m')"
    using i4 ik by (auto simp: getSocketsInRoom_paired_join id)
  show ?thesis unfolding registry_inv_def using 1 2 3 4 by blast
qed

lemma registry_inv_paired_leave:
  assumes inv: "registry_inv m" and w: "w \<in> snd ` set (sockets m)"
  shows "registry_inv (paired_leave w room m)"
proof -
  let ?m' = "paired_leave w room m"
  from inv have i1: "\<And>i w'. (i, w') \<in> set (sockets m) \<Longrightarrow> ud_id (udata m w') = i"
    and i2: "distinct (map fst (sockets m))"
    and i3: "\<And>i w' r. (i, w') \<in> set (sockets m) \<Longrightarrow>
          r \<in> set (ud_rooms (udata m w')) \<longleftrightarrow> ud_id (udata m w') \<in> set (getSocketsInRoom m r)"
    and i4: "\<And>r. set (getSocketsInRoom m r) \<subseteq> fst ` set (sockets m)"
    by (auto simp: registry_inv_def membership_symmetric_def)
  from w obtain i where iw: "(i, w) \<in> set (sockets m)" by auto
  then have id: "ud_id (udata m w) = i" by (rule i1)
  have other: "ud_id (udata m w') \<noteq> i" if "(j, w') \<in> set (sockets m)" "w' \<noteq> w" for j w'
    using that i1 [OF that(1)] same_key_same_socket [OF i2 iw, of w'] by auto
  have 1: "\<forall>(j, w') \<in> set (sockets ?m'). ud_id (udata ?m' w') = j"
    using i1 by auto
  have 2: "distinct (map fst (sockets ?m'))"
    using i2 by simp
  have 3: "membership_symmetric ?m'"
    unfolding membership_symmetric_def
  proof (intro ballI allI, clarify)
    fix j w' r
    assume jw: "(j, w') \<in> set (sockets ?m')"
    then have jw': "(j, w') \<in> set (sockets m)" by simp
    show "r \<in> set (ud_rooms (udata ?m' w')) \<longleftrightarrow>
        ud_id (udata ?m' w') \<in> set (getSocketsInRoom ?m' r)"
    proof (cases "w' = w")
      case True
      then show ?thesis
        using i3 [OF iw, of r] by (auto simp: getSocketsInRoom_paired_leave id)
    next
      case False
      with other [OF jw'] i3 [OF jw', of r] show ?thesis
        by (auto simp: getSocketsInRoom_paired_leave id)
    qed
  qed
  have 4: "\<forall>r. set (getSocketsInRoom ?m' r) \<subseteq> fst ` set (sockets ?m')"
    using i4 by (auto simp: getSocketsInRoom_paired_leave id)
  show ?thesis unfolding registry_inv_def using 1 2 3 4 by blast
qed

lemma registry_inv_handleJoinCollection:
  "registry_inv m \<Longrightarrow> w \<in> snd ` set (sockets m) \<Longrightarrow> registry_inv (handleJoinCollection w d m)"
proof -
  have "registry_inv m \<Longrightarrow> w \<in> snd ` set (sockets m) \<Longrightarrow>
      registry_inv (fold (join_step w) cs m)" for cs
    by (induction cs arbitrary: m) (simp_all add: join_step_paired registry_inv_paired_join)
  then show "registry_inv m \<Longrightarrow> w \<in> snd ` set (sockets m) \<Longrightarrow>
      registry_inv (handleJoinCollection w d m)"
    by (simp add: handleJoinCollection_def)
qed

lemma registry_inv_handleUnsubscribe:
  "registry_inv m \<Longrightarrow> w \<in> snd ` set (sockets m) \<Longrightarrow> registry_inv (handleUnsubscribe w d m)"
proof -
  have "registry_inv m \<Longrightarrow> w \<in> snd ` set (sockets m) \<Longrightarrow>
      registry_inv (fold (unsubscribe_step w) cs m)" for cs
    by (induction cs arbitrary: m)
      (simp_all add: unsubscribe_step_paired registry_inv_paired_leave)
  then show "registry_inv m \<Longrightarrow> w \<in> snd ` set (sockets m) \<Longrightarrow>
      registry_inv (handleUnsubscribe w d m)"
    by (simp add: handleUnsubscribe_def)
qed

lemma registry_inv_ws_message:
  assumes "host_keeps_membership opts invoke tasks" and "registry_inv m"
    and "w \<in> snd ` set (sockets m)"
  shows "registry_inv (ws_message invoke w parsed m)"
proof (cases parsed)
  case None
  with assms(2) show ?thesis by (simp add: ws_message_def)
next
  case (Some msg)
  have custom: "registry_inv (state_of (invoke h w (msg_data msg) m))" for h
    using assms unfolding host_keeps_membership_def by blast
  have "registry_inv (handleMessage invoke w msg m)"
    unfolding handleMessage_def
    using assms(2,3) custom
    by (auto simp: registry_inv_handleJoinCollection registry_inv_handleUnsubscribe state_of_def
        split: option.splits completion.splits)
  with Some show ?thesis by (simp add: ws_message_def)
qed

lemma registry_inv_ws_close:
  assumes inv: "registry_inv m" and w: "w \<in> snd ` set (sockets m)"
  shows "registry_inv (ws_close w m)"
proof -
  let ?m' = "ws_close w m"
  from inv have i1: "\<And>i w'. (i, w') \<in> set (sockets m) \<Longrightarrow> ud_id (udata m w') = i"
    and i2: "distinct (map fst (sockets m))"
    and i3: "\<And>i w' r. (i, w') \<in> set (sockets m) \<Longrightarrow>
          r \<in> set (ud_rooms (udata m w')) \<longleftrightarrow> ud_id (udata m w') \<in> set (getSocketsInRoom m r)"
    and i4: "\<And>r. set (getSocketsInRoom m r) \<subseteq> fst ` set (sockets m)"
    by (auto simp: registry_inv_def membership_symmetric_def)
  from w obtain i where iw: "(i, w) \<in> set (sockets m)" by auto
  then have id: "ud_id (udata m w) = i" by (rule i1)
  have s: "sockets ?m' = Map_delete i (sockets m)"
    by (simp add: ws_close_def Let_def id)
  have ud: "udata ?m' = udata m"
    by (simp add: ws_close_def Let_def)
  have g: "set (getSocketsInRoom ?m' r) =
      (if r \<in> set (ud_rooms (udata m w)) then set (getSocketsInRoom m r) - {i}
       else set (getSocketsInRoom m r))" for r
    by (simp add: ws_close_members id)
  have gone: "i \<notin> set (getSocketsInRoom ?m' r)" for r
    using i3 [OF iw, of r] by (simp add: g id)
  have 1: "\<forall>(j, w') \<in> set (sockets ?m'). ud_id (udata ?m' w') = j"
    using i1 by (auto simp: s ud set_Map_delete)
  have 2: "distinct (map fst (sockets ?m'))"
    using i2 by (simp add: s distinct_Map_delete)
  have 3: "membership_symmetric ?m'"
    unfolding membership_symmetric_def
  proof (intro ballI allI, clarify)
    fix j w' r
    assume "(j, w') \<in> set (sockets ?m')"
    then have jw: "(j, w') \<in> set (sockets m)" and ji: "j \<noteq> i"
      by (auto simp: s set_Map_delete)
    from i1 [OF jw] ji i3 [OF jw, of r]
    show "r \<in> set (ud_rooms (udata ?m' w')) \<longleftrightarrow>
        ud_id (udata ?m' w') \<in> set (getSocketsInRoom ?m' r)"
      by (auto simp: ud g)
  qed
  have 4: "\<forall>r. set (getSocketsInRoom ?m' r) \<subseteq> fst ` set (sockets ?m')"
  proof (intro allI subsetI)
    fix r j
    assume j: "j \<in> set (getSocketsInRoom ?m' r)"
    with gone [of r] have "j \<noteq> i" by auto
    moreover from j have "j \<in> set (getSocketsInRoom m r)"
      by (auto simp: g split: if_splits)
    with i4 [of r] have "j \<in> fst ` set (sockets m)" by auto
    ultimately show "j \<in> fst ` set (sockets ?m')"
      by (auto simp: s set_Map_delete image_iff)
  qed
  show ?thesis unfolding registry_inv_def using 1 2 3 4 by blast
qed

lemma registry_inv_transport_open:
  assumes "host_keeps_membership opts invoke tasks" and "registry_inv m"
    and "w \<notin> snd ` set (sockets m)" and "uuid \<notin> fst ` set (sockets m)"
  shows "registry_inv (transport_open opts w (upgrade_resume p result uuid) m)"
proof (cases "\<exists>ud k pr e. upgrade_resume p result uuid = [UpgradeTo ud k pr e]")
  case False
  then have "transport_open opts w (upgrade_resume p result uuid) m = m"
    by (auto simp: transport_open_def split: list.splits res_write.splits)
  with assms(2) show ?thesis by simp
next
  case True
  then obtain ud k pr e where up: "upgrade_resume p result uuid = [UpgradeTo ud k pr e]"
    by blast
  then obtain usr where ud: "ud = \<lparr>ud_user = usr, ud_id = uuid, ud_rooms = []\<rparr>"
    by (auto simp: upgrade_resume_def catch_block_def Let_def
        split: lookup_result.splits if_splits option.splits)
  let ?m1 = "m\<lparr>udata := (udata m)(w := ud), sockets := Map_set uuid w (sockets m)\<rparr>"
  have inv1: "registry_inv ?m1"
    unfolding ud by (rule registry_inv_open [OF assms(2,3,4)])
  have op: "w \<in> snd ` set (sockets ?m1)"
    by (simp add: Map_set_fresh [OF assms(4)])
  have "registry_inv (ws_open opts w (m\<lparr>udata := (udata m)(w := ud)\<rparr>))"
  proof (cases "onSocketConnection opts")
    case None
    with inv1 show ?thesis by (simp add: ws_open_def Let_def ud)
  next
    case (Some callback)
    with assms(1) inv1 op have "registry_inv (callback w ?m1)"
      unfolding host_keeps_membership_def by blast
    with Some show ?thesis by (simp add: ws_open_def Let_def ud)
  qed
  then show ?thesis by (simp add: transport_open_def up)
qed

text \<open>Sending, relaying and emitting change neither the tables nor the user data.\<close>

lemma registry_inv_sendToSocket: "registry_inv (sendToSocket w l d m) = registry_inv m"
  by (rule registry_inv_cong) simp_all

lemma registry_inv_broadcastToRoom: "registry_inv (broadcastToRoom r d l ex m) = registry_inv m"
  by (rule registry_inv_cong) simp_all

lemma registry_inv_handleRedisMessage:
  "registry_inv (handleRedisMessage c msg m) = registry_inv m"
  by (rule registry_inv_cong) simp_all

lemma registry_inv_feed_and_relay: "registry_inv (feed_and_relay e r m) = registry_inv m"
  by (rule registry_inv_cong) simp_all

lemma registry_inv_emitEvent:
  assumes "\<forall>f \<in> set others. \<forall>m. registry_inv m \<longrightarrow> registry_inv (f m)" and "registry_inv m"
  shows "registry_inv (state_of (emitEvent opts others event m))"
proof (cases "passes_filter opts event")
  case False
  with assms(2) show ?thesis by (simp add: emitEvent_filtered)
next
  case True
  show ?thesis
  proof (cases "authorize opts")
    case None
    show ?thesis
      unfolding emitEvent_unauthorized [OF True None]
      by (simp add: registry_inv_feed_and_relay registry_inv_broadcastToRoom assms(2))
  next
    case (Some auth)
    show ?thesis
    proof (cases "property_get auth (routing_collection opts event)")
      case None
      show ?thesis
        unfolding emitEvent_default_deny [OF True Some None]
        by (simp add: registry_inv_feed_and_relay assms(2))
    next
      case h: (Some h)
      let ?loop = "authorized_loop h (final_event opts event) others
        (getSocketsInRoom m (''collection:'' @ routing_collection opts event)) m"
      have loop: "registry_inv (state_of ?loop)"
        by (rule authorized_loop_preserves [where P = registry_inv, OF assms(1)
              registry_inv_sendToSocket assms(2)])
      show ?thesis
      proof (cases ?loop)
        case (Normal m1)
        with loop have "registry_inv m1" by simp
        with Normal show ?thesis
          unfolding emitEvent_authorized [OF True Some h]
          by (simp add: registry_inv_feed_and_relay)
      next
        case (Throws e m1)
        with loop show ?thesis
          unfolding emitEvent_authorized [OF True Some h] by simp
      qed
    qed
  qed
qed

lemma reachable_registry_inv:
  assumes "host_keeps_membership opts invoke tasks" and "reachable opts invoke tasks m"
  shows "registry_inv m"
  using assms(2)
proof (induction rule: reachable.induct)
  case (start redis ud)
  show ?case by (rule registry_inv_new)
next
  case (opened m w uuid p result)
  then show ?case by (intro registry_inv_transport_open [OF assms(1)])
next
  case (message m w parsed)
  then show ?case by (intro registry_inv_ws_message [OF assms(1)])
next
  case (closed m w)
  then show ?case by (intro registry_inv_ws_close)
next
  case (relayed m channel relay)
  then show ?case by (simp add: registry_inv_handleRedisMessage)
next
  case (broadcast m roomName d eventName excludeSocketId)
  then show ?case by (simp add: registry_inv_broadcastToRoom)
next
  case (emitted m others event)
  from assms(1) emitted.hyps(2)
  have "\<forall>f \<in> set others. \<forall>m. registry_inv m \<longrightarrow> registry_inv (f m)"
    unfolding host_keeps_membership_def by blast
  from registry_inv_emitEvent [OF this emitted.IH] show ?case .
qed

text \<open>
  The host of the examples keeps the invariant: its callback only registers a handler,
  its handler joins in the paired way, and the task that runs during a suspension of
  \<open>emitEvent\<close> is a broadcast.
\<close>

lemma room_host_keeps_membership:
  "host_keeps_membership room_hooks room_invoke
     {broadcastToRoom ''project:42'' (DUserId (IdNum 1)) ''ping'' None}"
proof -
  have 1: "registry_inv (on l h m) = registry_inv m" for l and h :: nat and m
    by (rule registry_inv_cong) simp_all
  have 2: "registry_inv (state_of (room_invoke h w d m))"
    if "registry_inv m" "w \<in> snd ` set (sockets m)" for h w d m
    using that by (cases d) (simp_all add: room_invoke_def registry_inv_paired_join)
  show ?thesis
    unfolding host_keeps_membership_def
    by (intro conjI allI impI ballI)
       (auto simp: room_hooks_def 1 2 registry_inv_broadcastToRoom)
qed

lemma no_host_keeps_membership: "host_keeps_membership no_hooks star_invoke {}"
proof -
  have "registry_inv (state_of (star_invoke h w d m)) = registry_inv m" for h w d m
    by (rule registry_inv_cong) (simp_all add: star_invoke_def)
  then show ?thesis
    by (simp add: host_keeps_membership_def no_hooks_def)
qed

text \<open>
  The instance of the examples is reachable: alice's handshake completes on socket 1 with
  the id \<open>c1\<close>, and she sends \<open>join-collection\<close> for \<open>posts\<close>.
\<close>

lemma alice_upgrade:
  "upgrade_resume alice_pending (Resolves (Some alice_doc)) ''c1'' =
      [UpgradeTo \<lparr>ud_user = Some alice, ud_id = ''c1'', ud_rooms = []\<rparr> ''key'' '''' '''']"
  by (simp add: upgrade_resume_def alice_pending_def alice_doc_def alice_def
      collection_or_users_def)

lemma relay_instance_reachable: "reachable no_hooks star_invoke {} relay_instance"
proof -
  let ?m0 = "new_manager True no_user_data :: nat manager"
  let ?m1 = "transport_open no_hooks 1 (upgrade_resume alice_pending (Resolves (Some alice_doc)) ''c1'') ?m0"
  let ?m2 = "ws_message star_invoke 1
               (Some \<lparr>msg_type = ''join-collection'', msg_data = Single ''posts''\<rparr>) ?m1"
  have m1: "?m1 = \<lparr>sockets = [(''c1'', 1)], rooms = Map.empty, customHandlers = Map.empty,
      pubClient = True,
      udata = no_user_data(1 := \<lparr>ud_user = Some alice, ud_id = ''c1'', ud_rooms = []\<rparr>),
      sent = [], published = []\<rparr>"
    unfolding alice_upgrade
    by (simp add: transport_open_def ws_open_def no_hooks_def new_manager_def)
  have m2: "?m2 = relay_instance"
    unfolding m1
    by (simp add: ws_message_def handleMessage_def handleJoinCollection_def collections_of_def
        join_step_def joinRoom_eq rooms_add_def getSocketsInRoom_def Set_add_def
        relay_instance_def Let_def)
  have r0: "reachable no_hooks star_invoke {} ?m0" by (rule reachable.start)
  have r1: "reachable no_hooks star_invoke {} ?m1"
    by (rule reachable.opened [OF r0]) (simp_all add: new_manager_def)
  have "reachable no_hooks star_invoke {} ?m2"
    by (rule reachable.message [OF r1]) (unfold m1, simp)
  then show ?thesis by (simp only: m2)
qed

text \<open>
  So is the state of the host with custom rooms: alice's handshake completes, the callback
  registers the handler, and she sends \<open>join-room\<close> for \<open>project:42\<close>.
\<close>

lemma project_member_reachable:
  "reachable room_hooks room_invoke
     {broadcastToRoom ''project:42'' (DUserId (IdNum 1)) ''ping'' None} project_member"
proof -
  let ?tasks = "{broadcastToRoom ''project:42'' (DUserId (IdNum 1)) ''ping'' None}
    :: (nat manager \<Rightarrow> nat manager) set"
  let ?m0 = "new_manager False no_user_data :: nat manager"
  let ?m1 = "transport_open room_hooks 1
               (upgrade_resume alice_pending (Resolves (Some alice_doc)) ''c1'') ?m0"
  let ?m2 = "ws_message room_invoke 1
               (Some \<lparr>msg_type = ''join-room'', msg_data = Single ''project:42''\<rparr>) ?m1"
  have m1: "?m1 = \<lparr>sockets = [(''c1'', 1)], rooms = Map.empty,
      customHandlers = [''join-room'' \<mapsto> 1],
      pubClient = False,
      udata = no_user_data(1 := \<lparr>ud_user = Some alice, ud_id = ''c1'', ud_rooms = []\<rparr>),
      sent = [], published = []\<rparr>"
    unfolding alice_upgrade
    by (simp add: transport_open_def ws_open_def room_hooks_def new_manager_def on_def)
  have m2: "?m2 = project_member"
    unfolding m1
    by (simp add: ws_message_def handleMessage_def room_invoke_def paired_join_def
        joinRoom_eq rooms_add_def getSocketsInRoom_def Set_add_def project_member_def)
  have r0: "reachable room_hooks room_invoke ?tasks ?m0" by (rule reachable.start)
  have r1: "reachable room_hooks room_invoke ?tasks ?m1"
    by (rule reachable.opened [OF r0]) (simp_all add: new_manager_def)
  have "reachable room_hooks room_invoke ?tasks ?m2"
    by (rule reachable.message [OF r1]) (unfold m1, simp)
  then show ?thesis by (simp only: m2)
qed

text \<open>
  Claim C3, amended. In every state that an instance reaches from a new manager through
  the handlers of the transport (a handshake that completes for a new socket under a
  fresh id, messages on open sockets, closes of open sockets), relay messages, broadcasts
  and emitted events, with host code (the post-connect callback, the custom handlers, the
  tasks that run while \<open>emitEvent\<close> is suspended) that keeps the invariant of the
  registry, as code does that joins and leaves rooms of any name in the paired way,
  membership is symmetric: a connection of the table lists a room exactly when the room's
  member set holds its id; and the member sets hold ids of connections of the table only.
\<close>

theorem c3_membership_symmetric:
  assumes "host_keeps_membership opts invoke tasks" and "reachable opts invoke tasks m"
  shows "membership_symmetric m \<and> (\<forall>r. set (getSocketsInRoom m r) \<subseteq> fst ` set (sockets m))"
  using reachable_registry_inv [OF assms] by (simp add: registry_inv_def)

theorem c3_membership_symmetric_witness:
  "host_keeps_membership room_hooks room_invoke
     {broadcastToRoom ''project:42'' (DUserId (IdNum 1)) ''ping'' None} \<and>
   reachable room_hooks room_invoke
     {broadcastToRoom ''project:42'' (DUserId (IdNum 1)) ''ping'' None} project_member \<and>
   getSocketsInRoom project_member ''project:42'' = [''c1''] \<and>
   ud_rooms (udata project_member 1) = [''project:42''] \<and>
   membership_symmetric project_member \<and>
   (\<forall>r. set (getSocketsInRoom project_member r) \<subseteq> fst ` set (sockets project_member))"
proof -
  note t = c3_membership_symmetric [OF room_host_keeps_membership project_member_reachable]
  have g: "getSocketsInRoom project_member ''project:42'' = [''c1'']"
    by (simp add: getSocketsInRoom_def project_member_def)
  have u: "ud_rooms (udata project_member 1) = [''project:42'']"
    by (simp add: project_member_def)
  show ?thesis
    by (intro conjI room_host_keeps_membership project_member_reachable g u
        t [THEN conjunct1] t [THEN conjunct2])
qed

text \<open>
  Claim C3 as stated fails. \<open>joinRoom\<close> and \<open>leaveRoom\<close> are public and change the
  registry only. From the reachable instance of the examples, \<open>joinRoom\<close> puts \<open>c1\<close> into
  \<open>room:alpha\<close>, which the connection does not list; \<open>leaveRoom\<close> takes \<open>c1\<close> out of
  \<open>collection:posts\<close>, which the connection still lists.
\<close>

theorem c3_counterexample:
  "reachable no_hooks star_invoke {} relay_instance \<and>
   \<not> membership_symmetric (joinRoom ''c1'' ''room:alpha'' relay_instance) \<and>
   \<not> membership_symmetric (leaveRoom ''c1'' ''collection:posts'' relay_instance)"
proof (intro conjI notI)
  show "reachable no_hooks star_invoke {} relay_instance"
    by (rule relay_instance_reachable)
next
  let ?m = "joinRoom ''c1'' ''room:alpha'' relay_instance"
  assume "membership_symmetric ?m"
  moreover have "(''c1'', 1) \<in> set (sockets ?m)" by (simp add: relay_instance_def)
  ultimately have "''room:alpha'' \<in> set (ud_rooms (udata ?m 1)) \<longleftrightarrow>
      ud_id (udata ?m 1) \<in> set (getSocketsInRoom ?m ''room:alpha'')"
    unfolding membership_symmetric_def by blast
  then show False
    by (simp add: getSocketsInRoom_joinRoom relay_instance_def)
next
  let ?m = "leaveRoom ''c1'' ''collection:posts'' relay_instance"
  assume "membership_symmetric ?m"
  moreover have "(''c1'', 1) \<in> set (sockets ?m)" by (simp add: relay_instance_def)
  ultimately have "''collection:posts'' \<in> set (ud_rooms (udata ?m 1)) \<longleftrightarrow>
      ud_id (udata ?m 1) \<in> set (getSocketsInRoom ?m ''collection:posts'')"
    unfolding membership_symmetric_def by blast
  moreover have "getSocketsInRoom relay_instance ''collection:posts'' = [''c1'']"
    by (simp add: relay_instance_def getSocketsInRoom_def)
  then have "getSocketsInRoom ?m ''collection:posts'' = []"
    by (simp add: getSocketsInRoom_leaveRoom Set_delete_def)
  moreover have "ud_rooms (udata ?m 1) = [''collection:posts'']"
    by (simp add: relay_instance_def)
  ultimately show False by simp
qed

end
